theory Spec2Isabelle
  imports Main "HOL-Library.Word" "HOL-Library.AList" "HOL-Library.Sublist"
begin

section \<open>JavaScript values used by the chat core\<close>

text \<open>
  A JavaScript string is a sequence of UTF-16 code units; \<open>length\<close>, \<open>trim\<close>, the
  regular expressions (none has the \<open>u\<close> flag) and \<open>replace\<close> all work on code units.
  \<open>js\<close> writes an ASCII literal as such a sequence.
\<close>

type_synonym jsstring = "16 word list"

definition js :: "string \<Rightarrow> jsstring" where
  "js s = map of_char s"

text \<open>
  The handlers receive untyped payloads, and \<open>validateMessage\<close>, \<open>validateNickname\<close> and
  \<open>searchMessages\<close> test \<open>typeof x !== 'string'\<close>. A value is a string or anything else.
\<close>

datatype jsval = JStr jsstring | JOther

text \<open>
  The code units removed by \<open>String.prototype.trim\<close> and matched by \<open>\s\<close>: the
  ECMAScript WhiteSpace and LineTerminator code points (all in the basic plane).
\<close>

definition isWhiteSpace :: "16 word \<Rightarrow> bool" where
  "isWhiteSpace c \<longleftrightarrow>
     c = 0x09 \<or> c = 0x0A \<or> c = 0x0B \<or> c = 0x0C \<or> c = 0x0D \<or> c = 0x20 \<or> c = 0xA0 \<or>
     c = 0x1680 \<or> (0x2000 \<le> c \<and> c \<le> 0x200A) \<or> c = 0x2028 \<or> c = 0x2029 \<or>
     c = 0x202F \<or> c = 0x205F \<or> c = 0x3000 \<or> c = 0xFEFF"

definition trim :: "jsstring \<Rightarrow> jsstring" where
  "trim s = rev (dropWhile isWhiteSpace (rev (dropWhile isWhiteSpace s)))"

text \<open>\<open>s.replace(/c/g, r)\<close> for a single code unit \<open>c\<close>.\<close>

definition replaceAll :: "16 word \<Rightarrow> jsstring \<Rightarrow> jsstring \<Rightarrow> jsstring" where
  "replaceAll c r s = concat (map (\<lambda>x. if x = c then r else [x]) s)"

text \<open>\<open>s.includes(t)\<close>: \<open>t\<close> occurs in \<open>s\<close> as a contiguous run.\<close>

fun includes_str :: "jsstring \<Rightarrow> jsstring \<Rightarrow> bool" where
  "includes_str [] t = (t = [])"
| "includes_str (x # xs) t = (prefix t (x # xs) \<or> includes_str xs t)"

text \<open>
  \<open>Array.prototype.slice(start)\<close> with an integral \<open>start\<close>: a negative \<open>start\<close> counts
  from the end, and both directions are clamped to the array.
\<close>

definition slice :: "int \<Rightarrow> 'a list \<Rightarrow> 'a list" where
  "slice start xs =
     (let len = int (length xs);
          k = (if start < 0 then max (len + start) 0 else min start len)
      in drop (nat k) xs)"

text \<open>
  \<open>String.prototype.toLowerCase\<close> is the host's Unicode lower-casing. Every function
  that calls it takes it as its first argument \<open>lc\<close>, and the theorems hold for every
  such function. \<open>toLowerCaseASCII\<close> is what the host computes on strings of ASCII
  code units; the concrete instances below use it on such strings only.
\<close>

definition toLowerCaseASCII :: "jsstring \<Rightarrow> jsstring" where
  "toLowerCaseASCII s = map (\<lambda>c. if 0x41 \<le> c \<and> c \<le> 0x5A then c + 0x20 else c) s"

section \<open>types/chat.ts\<close>

record User =
  id_u :: jsstring
  nickname_u :: jsstring
  joinedAt :: int

record Message =
  id_m :: jsstring
  userId :: jsstring
  nickname_m :: jsstring
  message :: jsstring
  timestamp :: int

datatype ErrorCodes =
  NICKNAME_TAKEN | INVALID_NICKNAME | ROOM_FULL | INVALID_MESSAGE |
  RATE_LIMIT_EXCEEDED | SERVER_ERROR | CONNECTION_ERROR

definition NICKNAME_MIN_LENGTH :: nat where "NICKNAME_MIN_LENGTH = 1"
definition NICKNAME_MAX_LENGTH :: nat where "NICKNAME_MAX_LENGTH = 20"
definition MESSAGE_MIN_LENGTH :: nat where "MESSAGE_MIN_LENGTH = 1"
definition MESSAGE_MAX_LENGTH :: nat where "MESSAGE_MAX_LENGTH = 500"
definition MAX_USERS :: nat where "MAX_USERS = 50"
definition MAX_MESSAGES :: nat where "MAX_MESSAGES = 100"
definition RATE_LIMIT_PER_SECOND :: nat where "RATE_LIMIT_PER_SECOND = 3"

section \<open>lib/messageStore.ts\<close>

text \<open>
  The store's only field is the array \<open>messages\<close>. A method that can throw returns
  the error or the value, paired with the store it leaves behind. \<open>uuidv4()\<close> and
  \<open>new Date()\<close> are inputs of \<open>addMessage\<close>: the identifier \<open>uuid\<close> and the time
  \<open>now\<close> in milliseconds.
\<close>

record MessageStore =
  messages :: "Message list"

definition emptyStore :: MessageStore where
  "emptyStore = \<lparr>messages = []\<rparr>"

text \<open>The character class \<open>[\x00-\x08\x0B\x0C\x0E-\x1F\x7F]\<close>.\<close>

definition isInvalidChar :: "16 word \<Rightarrow> bool" where
  "isInvalidChar c \<longleftrightarrow>
     c \<le> 0x08 \<or> c = 0x0B \<or> c = 0x0C \<or> (0x0E \<le> c \<and> c \<le> 0x1F) \<or> c = 0x7F"

definition validateMessage :: "jsval \<Rightarrow> ErrorCodes + unit" where
  "validateMessage v =
     (case v of
        JOther \<Rightarrow> Inl INVALID_MESSAGE
      | JStr m \<Rightarrow>
          if m = [] then Inl INVALID_MESSAGE
          else let trimmed = trim m in
            if length trimmed < MESSAGE_MIN_LENGTH \<or> length trimmed > MESSAGE_MAX_LENGTH
            then Inl INVALID_MESSAGE
            else if list_ex isInvalidChar m then Inl INVALID_MESSAGE
            else Inr ())"

definition sanitizeMessage :: "jsstring \<Rightarrow> jsstring" where
  "sanitizeMessage m =
     replaceAll 0x2F (js ''&#x2F;'')
       (replaceAll 0x27 (js ''&#x27;'')
         (replaceAll 0x22 (js ''&quot;'')
           (replaceAll 0x3E (js ''&gt;'')
             (replaceAll 0x3C (js ''&lt;'')
               (replaceAll 0x26 (js ''&amp;'') m)))))"

text \<open>
  \<open>addMessage\<close>: validate, build the object, push, then \<open>splice(0, removedCount)\<close> when
  the array is longer than \<open>MAX_MESSAGES\<close>. The \<open>JOther\<close> branch after a successful
  validation is never taken, since \<open>validateMessage\<close> throws on every non-string.
\<close>

definition addMessage ::
  "jsstring \<Rightarrow> jsstring \<Rightarrow> jsval \<Rightarrow> jsstring \<Rightarrow> int \<Rightarrow> MessageStore
     \<Rightarrow> (ErrorCodes + Message) \<times> MessageStore" where
  "addMessage uid nick v uuid now st =
     (case validateMessage v of
        Inl e \<Rightarrow> (Inl e, st)
      | Inr _ \<Rightarrow>
          (case v of
             JOther \<Rightarrow> (Inl INVALID_MESSAGE, st)
           | JStr m \<Rightarrow>
               let messageObj = \<lparr>id_m = uuid, userId = uid, nickname_m = trim nick,
                                 message = sanitizeMessage (trim m), timestamp = now\<rparr>;
                   pushed = messages st @ [messageObj];
                   kept = (if length pushed > MAX_MESSAGES
                           then drop (length pushed - MAX_MESSAGES) pushed else pushed)
               in (Inr messageObj, st\<lparr>messages := kept\<rparr>)))"

definition getRecentMessages :: "int \<Rightarrow> MessageStore \<Rightarrow> Message list" where
  "getRecentMessages limit st =
     (let actualLimit = min (max 1 limit) (int (length (messages st)))
      in slice (- actualLimit) (messages st))"

definition getUserMessages :: "jsstring \<Rightarrow> int \<Rightarrow> MessageStore \<Rightarrow> Message list" where
  "getUserMessages uid limit st = slice (- limit) (filter (\<lambda>msg. userId msg = uid) (messages st))"

definition getMessageCount :: "MessageStore \<Rightarrow> nat" where
  "getMessageCount st = length (messages st)"

definition clearMessages :: "MessageStore \<Rightarrow> MessageStore" where
  "clearMessages st = st\<lparr>messages := []\<rparr>"

definition searchMessages ::
  "(jsstring \<Rightarrow> jsstring) \<Rightarrow> jsval \<Rightarrow> int \<Rightarrow> MessageStore \<Rightarrow> Message list" where
  "searchMessages lc v limit st =
     (case v of
        JOther \<Rightarrow> []
      | JStr searchTerm \<Rightarrow>
          if searchTerm = [] then []
          else let term = trim (lc searchTerm) in
            if length term = 0 then []
            else slice (- limit)
                   (filter (\<lambda>msg. includes_str (lc (message msg)) term \<or>
                                   includes_str (lc (nickname_m msg)) term)
                      (messages st)))"

definition getMessagesByTimeRange :: "int \<Rightarrow> int \<Rightarrow> MessageStore \<Rightarrow> Message list" where
  "getMessagesByTimeRange startTime endTime st =
     filter (\<lambda>msg. timestamp msg \<ge> startTime \<and> timestamp msg \<le> endTime) (messages st)"

section \<open>lib/userManager.ts\<close>

text \<open>
  \<open>users\<close> is a \<open>Map<string, User>\<close>. A JavaScript map iterates in insertion order,
  \<open>set\<close> on a key that is present replaces the value where it stands, and \<open>set\<close> on a
  new key appends: this is \<open>AList.update\<close> on an association list. \<open>size\<close> is the
  number of entries. \<open>new Date()\<close> is the input \<open>now\<close> of \<open>addUser\<close>.
\<close>

record UserManager =
  users :: "(jsstring \<times> User) list"

definition emptyUsers :: UserManager where
  "emptyUsers = \<lparr>users = []\<rparr>"

text \<open>
  The character class of \<open>validPattern\<close>: ASCII letters and digits, the code units
  3040-309F, 30A0-30FF, 4E00-9FAF and 3400-4DBF (hexadecimal), \<open>\s\<close>, hyphen and underscore.
\<close>

definition isValidPatternChar :: "16 word \<Rightarrow> bool" where
  "isValidPatternChar c \<longleftrightarrow>
     (0x61 \<le> c \<and> c \<le> 0x7A) \<or> (0x41 \<le> c \<and> c \<le> 0x5A) \<or> (0x30 \<le> c \<and> c \<le> 0x39) \<or>
     (0x3040 \<le> c \<and> c \<le> 0x309F) \<or> (0x30A0 \<le> c \<and> c \<le> 0x30FF) \<or>
     (0x4E00 \<le> c \<and> c \<le> 0x9FAF) \<or> (0x3400 \<le> c \<and> c \<le> 0x4DBF) \<or>
     isWhiteSpace c \<or> c = 0x2D \<or> c = 0x5F"

text \<open>\<open>s.replace(/\s+/g, ' ')\<close>: every maximal run of white space becomes one space.\<close>

function replaceWhiteSpaceRuns :: "jsstring \<Rightarrow> jsstring" where
  "replaceWhiteSpaceRuns [] = []"
| "replaceWhiteSpaceRuns (c # cs) =
     (if isWhiteSpace c then 0x20 # replaceWhiteSpaceRuns (dropWhile isWhiteSpace cs)
      else c # replaceWhiteSpaceRuns cs)"
  by pat_completeness auto
termination
  by (relation "measure length") (auto simp: less_Suc_eq_le length_dropWhile_le)

definition validateNickname :: "jsval \<Rightarrow> ErrorCodes + unit" where
  "validateNickname v =
     (case v of
        JOther \<Rightarrow> Inl INVALID_NICKNAME
      | JStr n \<Rightarrow>
          if n = [] then Inl INVALID_NICKNAME
          else let trimmed = trim n in
            if length trimmed < NICKNAME_MIN_LENGTH \<or> length trimmed > NICKNAME_MAX_LENGTH
            then Inl INVALID_NICKNAME
            else if \<not> (trimmed \<noteq> [] \<and> list_all isValidPatternChar trimmed)
            then Inl INVALID_NICKNAME
            else if trimmed \<noteq> trim (replaceWhiteSpaceRuns n) then Inl INVALID_NICKNAME
            else Inr ())"

definition isNicknameExists :: "(jsstring \<Rightarrow> jsstring) \<Rightarrow> jsstring \<Rightarrow> UserManager \<Rightarrow> bool" where
  "isNicknameExists lc n um =
     (let trimmedNickname = lc (trim n)
      in list_ex (\<lambda>user. lc (nickname_u user) = trimmedNickname) (map snd (users um)))"

text \<open>
  \<open>addUser\<close>: validation, then the duplicate check, then the capacity check, then
  \<open>this.users.set(socketId, user)\<close>. As in \<open>addMessage\<close>, the \<open>JOther\<close> branch after a
  successful validation is never taken.
\<close>

definition addUser ::
  "(jsstring \<Rightarrow> jsstring) \<Rightarrow> jsstring \<Rightarrow> jsval \<Rightarrow> int \<Rightarrow> UserManager
     \<Rightarrow> (ErrorCodes + User) \<times> UserManager" where
  "addUser lc socketId v now um =
     (case validateNickname v of
        Inl e \<Rightarrow> (Inl e, um)
      | Inr _ \<Rightarrow>
          (case v of
             JOther \<Rightarrow> (Inl INVALID_NICKNAME, um)
           | JStr n \<Rightarrow>
               if isNicknameExists lc n um then (Inl NICKNAME_TAKEN, um)
               else if length (users um) \<ge> MAX_USERS then (Inl ROOM_FULL, um)
               else let user = \<lparr>id_u = socketId, nickname_u = trim n, joinedAt = now\<rparr>
                    in (Inr user, um\<lparr>users := AList.update socketId user (users um)\<rparr>)))"

definition removeUser :: "jsstring \<Rightarrow> UserManager \<Rightarrow> User option \<times> UserManager" where
  "removeUser socketId um =
     (case map_of (users um) socketId of
        Some user \<Rightarrow> (Some user, um\<lparr>users := AList.delete socketId (users um)\<rparr>)
      | None \<Rightarrow> (None, um))"

definition getUser :: "jsstring \<Rightarrow> UserManager \<Rightarrow> User option" where
  "getUser socketId um = map_of (users um) socketId"

text \<open>
  \<open>Array.from(values).sort(by joinedAt).map(nickname)\<close>. \<open>Array.prototype.sort\<close> is
  stable, and so is \<open>sort_key\<close>; the array sorted is a copy of the map's values.
\<close>

definition getAllNicknames :: "UserManager \<Rightarrow> jsstring list" where
  "getAllNicknames um = map nickname_u (sort_key joinedAt (map snd (users um)))"

definition getAllUsers :: "UserManager \<Rightarrow> User list" where
  "getAllUsers um = map snd (users um)"

definition getUserCount :: "UserManager \<Rightarrow> nat" where
  "getUserCount um = length (users um)"

definition clearAllUsers :: "UserManager \<Rightarrow> UserManager" where
  "clearAllUsers um = um\<lparr>users := []\<rparr>"

section \<open>lib/socketManager.ts\<close>

text \<open>
  The manager owns the registry, the message log and \<open>rateLimitMap\<close>. A handler returns
  what it emits, in order, and the state it leaves. \<open>socket.emit\<close> reaches the one
  socket, \<open>socket.broadcast.emit\<close> every socket but that one, \<open>io.emit\<close> every socket.
  The \<open>code\<close> of an error event is the message of the exception caught: one of
  \<open>ErrorCodes\<close>, or the text of a \<open>TypeError\<close> raised by reading a field of a payload
  that is \<open>null\<close> or \<open>undefined\<close>.
\<close>

datatype ErrorCode = Code ErrorCodes | TypeErrorText

datatype Payload =
    JoinSuccess jsstring "jsstring list" "Message list"
  | UserJoined jsstring int
  | UserLeft jsstring int
  | UpdateUsers "jsstring list"
  | ReceiveMessage Message
  | ErrorEvent ErrorCode

datatype Emit =
    SocketEmit jsstring Payload
  | BroadcastEmit jsstring Payload
  | IoEmit Payload

record SocketManager =
  userManager :: UserManager
  messageStore :: MessageStore
  rateLimitMap :: "jsstring \<rightharpoonup> int list"

definition initialManager :: SocketManager where
  "initialManager = \<lparr>userManager = emptyUsers, messageStore = emptyStore, rateLimitMap = Map.empty\<rparr>"

definition RATE_LIMIT_WINDOW_MS :: int where
  "RATE_LIMIT_WINDOW_MS = 1000"

text \<open>\<open>checkRateLimit\<close>, with \<open>Date.now()\<close> as the input \<open>now\<close> (milliseconds).\<close>

definition checkRateLimit :: "jsstring \<Rightarrow> int \<Rightarrow> SocketManager \<Rightarrow> bool \<times> SocketManager" where
  "checkRateLimit socketId now sm =
     (let timestamps = (case rateLimitMap sm socketId of Some ts \<Rightarrow> ts | None \<Rightarrow> []);
          recentTimestamps = filter (\<lambda>t. now - t < RATE_LIMIT_WINDOW_MS) timestamps
      in if length recentTimestamps \<ge> RATE_LIMIT_PER_SECOND then (False, sm)
         else (True, sm\<lparr>rateLimitMap := (rateLimitMap sm)(socketId \<mapsto> recentTimestamps @ [now])\<rparr>))"

definition handleConnection :: "jsstring \<Rightarrow> SocketManager \<Rightarrow> Emit list \<times> SocketManager" where
  "handleConnection socketId sm = ([], sm\<lparr>rateLimitMap := (rateLimitMap sm)(socketId \<mapsto> [])\<rparr>)"

text \<open>
  A payload \<open>data\<close> is \<open>None\<close> when it is \<open>null\<close> or \<open>undefined\<close> (reading its field
  throws), and otherwise the value of the field read from it.
\<close>

definition handleJoinRoom ::
  "(jsstring \<Rightarrow> jsstring) \<Rightarrow> jsstring \<Rightarrow> jsval option \<Rightarrow> int \<Rightarrow> SocketManager
     \<Rightarrow> Emit list \<times> SocketManager" where
  "handleJoinRoom lc socketId data now sm =
     (case data of
        None \<Rightarrow> ([SocketEmit socketId (ErrorEvent TypeErrorText)], sm)
      | Some v \<Rightarrow>
          (case addUser lc socketId v now (userManager sm) of
             (Inl e, um) \<Rightarrow>
               ([SocketEmit socketId (ErrorEvent (Code e))], sm\<lparr>userManager := um\<rparr>)
           | (Inr user, um) \<Rightarrow>
               ([SocketEmit socketId
                   (JoinSuccess (nickname_u user) (getAllNicknames um)
                      (getRecentMessages 50 (messageStore sm))),
                 BroadcastEmit socketId (UserJoined (nickname_u user) (joinedAt user)),
                 IoEmit (UpdateUsers (getAllNicknames um))],
                sm\<lparr>userManager := um\<rparr>)))"

text \<open>
  \<open>handleSendMessage\<close> reads the clock twice: \<open>now\<close> in \<open>checkRateLimit\<close> and \<open>sent\<close>
  for the message's timestamp. The payload is first read after the rate-limit check.
\<close>

definition handleSendMessage ::
  "jsstring \<Rightarrow> jsval option \<Rightarrow> jsstring \<Rightarrow> int \<Rightarrow> int \<Rightarrow> SocketManager
     \<Rightarrow> Emit list \<times> SocketManager" where
  "handleSendMessage socketId data uuid now sent sm =
     (case getUser socketId (userManager sm) of
        None \<Rightarrow> ([SocketEmit socketId (ErrorEvent (Code CONNECTION_ERROR))], sm)
      | Some user \<Rightarrow>
          (case checkRateLimit socketId now sm of
             (False, sm1) \<Rightarrow> ([SocketEmit socketId (ErrorEvent (Code RATE_LIMIT_EXCEEDED))], sm1)
           | (True, sm1) \<Rightarrow>
               (case data of
                  None \<Rightarrow> ([SocketEmit socketId (ErrorEvent TypeErrorText)], sm1)
                | Some v \<Rightarrow>
                    (case addMessage (id_u user) (nickname_u user) v uuid sent (messageStore sm1) of
                       (Inl e, ms) \<Rightarrow>
                         ([SocketEmit socketId (ErrorEvent (Code e))], sm1\<lparr>messageStore := ms\<rparr>)
                     | (Inr msg, ms) \<Rightarrow>
                         ([IoEmit (ReceiveMessage msg)], sm1\<lparr>messageStore := ms\<rparr>)))))"

definition handleDisconnect :: "jsstring \<Rightarrow> int \<Rightarrow> SocketManager \<Rightarrow> Emit list \<times> SocketManager" where
  "handleDisconnect socketId now sm =
     (case removeUser socketId (userManager sm) of
        (Some user, um) \<Rightarrow>
          ([BroadcastEmit socketId (UserLeft (nickname_u user) now),
            IoEmit (UpdateUsers (getAllNicknames um))],
           sm\<lparr>userManager := um, rateLimitMap := (rateLimitMap sm)(socketId := None)\<rparr>)
      | (None, um) \<Rightarrow>
          ([], sm\<lparr>userManager := um, rateLimitMap := (rateLimitMap sm)(socketId := None)\<rparr>))"

text \<open>The events a socket delivers, and their dispatch as set up in \<open>handleConnection\<close>.\<close>

datatype Event =
    Connection jsstring
  | JoinRoom jsstring "jsval option" int
  | SendMessage jsstring "jsval option" jsstring int int
  | Disconnect jsstring int

fun handle :: "(jsstring \<Rightarrow> jsstring) \<Rightarrow> Event \<Rightarrow> SocketManager \<Rightarrow> Emit list \<times> SocketManager" where
  "handle lc (Connection s) sm = handleConnection s sm"
| "handle lc (JoinRoom s d now) sm = handleJoinRoom lc s d now sm"
| "handle lc (SendMessage s d uuid now sent) sm = handleSendMessage s d uuid now sent sm"
| "handle lc (Disconnect s now) sm = handleDisconnect s now sm"

text \<open>Events run to completion one after the other; the run collects what is emitted.\<close>

fun run :: "(jsstring \<Rightarrow> jsstring) \<Rightarrow> Event list \<Rightarrow> SocketManager \<Rightarrow> Emit list \<times> SocketManager" where
  "run lc [] sm = ([], sm)"
| "run lc (e # es) sm =
     (case handle lc e sm of (out, sm1) \<Rightarrow>
        (case run lc es sm1 of (outs, sm2) \<Rightarrow> (out @ outs, sm2)))"

section \<open>Method calls on the registry and the log\<close>

text \<open>
  The public methods of \<open>UserManager\<close> and \<open>MessageStore\<close> as calls, and the state of
  the two objects a call leaves behind. \<open>addUser\<close>, \<open>removeUser\<close>, \<open>clearAllUsers\<close>,
  \<open>addMessage\<close> and \<open>clearMessages\<close> are the only methods that assign to \<open>users\<close> or
  \<open>messages\<close> or call a mutating method on them; the others build their result from
  copies (\<open>slice\<close>, \<open>filter\<close>, \<open>Array.from\<close>, on which \<open>sort\<close> then works) or, as
  \<open>getStatistics\<close> does, in fresh objects filled by a loop that reads \<open>messages\<close>.
\<close>

datatype Call =
    AddUser jsstring jsval int
  | RemoveUser jsstring
  | ClearAllUsers
  | GetUser jsstring
  | GetAllNicknames
  | GetAllUsers
  | GetUserCount
  | IsNicknameExists jsstring
  | AddMessage jsstring jsstring jsval jsstring int
  | ClearMessages
  | GetRecentMessages int
  | GetUserMessages jsstring int
  | GetMessageCount
  | SearchMessages jsval int
  | GetMessagesByTimeRange int int
  | GetStatistics

fun isRead :: "Call \<Rightarrow> bool" where
  "isRead (AddUser s v now) = False"
| "isRead (RemoveUser s) = False"
| "isRead ClearAllUsers = False"
| "isRead (AddMessage uid nick v uuid now) = False"
| "isRead ClearMessages = False"
| "isRead c = True"

fun after ::
  "(jsstring \<Rightarrow> jsstring) \<Rightarrow> Call \<Rightarrow> UserManager \<times> MessageStore \<Rightarrow> UserManager \<times> MessageStore" where
  "after lc (AddUser s v now) (um, ms) = (snd (addUser lc s v now um), ms)"
| "after lc (RemoveUser s) (um, ms) = (snd (removeUser s um), ms)"
| "after lc ClearAllUsers (um, ms) = (clearAllUsers um, ms)"
| "after lc (AddMessage uid nick v uuid now) (um, ms) = (um, snd (addMessage uid nick v uuid now ms))"
| "after lc ClearMessages (um, ms) = (um, clearMessages ms)"
| "after lc (GetUser s) (um, ms) = (um, ms)"
| "after lc GetAllNicknames (um, ms) = (um, ms)"
| "after lc GetAllUsers (um, ms) = (um, ms)"
| "after lc GetUserCount (um, ms) = (um, ms)"
| "after lc (IsNicknameExists n) (um, ms) = (um, ms)"
| "after lc (GetRecentMessages limit) (um, ms) = (um, ms)"
| "after lc (GetUserMessages uid limit) (um, ms) = (um, ms)"
| "after lc GetMessageCount (um, ms) = (um, ms)"
| "after lc (SearchMessages v limit) (um, ms) = (um, ms)"
| "after lc (GetMessagesByTimeRange t1 t2) (um, ms) = (um, ms)"
| "after lc GetStatistics (um, ms) = (um, ms)"

fun afterAll ::
  "(jsstring \<Rightarrow> jsstring) \<Rightarrow> Call list \<Rightarrow> UserManager \<times> MessageStore \<Rightarrow> UserManager \<times> MessageStore" where
  "afterAll lc [] s = s"
| "afterAll lc (c # cs) s = afterAll lc cs (after lc c s)"

section \<open>Notions of the specification\<close>

text \<open>
  The escape of one code unit, as the store applies it: six characters have an entity,
  every other code unit stands for itself.
\<close>

definition escapeUnit :: "16 word \<Rightarrow> jsstring" where
  "escapeUnit c =
     (if c = 0x26 then js ''&amp;''
      else if c = 0x3C then js ''&lt;''
      else if c = 0x3E then js ''&gt;''
      else if c = 0x22 then js ''&quot;''
      else if c = 0x27 then js ''&#x27;''
      else if c = 0x2F then js ''&#x2F;''
      else [c])"

text \<open>The last \<open>k\<close> elements of a list, in the list's order.\<close>

definition lastN :: "nat \<Rightarrow> 'a list \<Rightarrow> 'a list" where
  "lastN k xs = drop (length xs - k) xs"

text \<open>
  The unbounded log: every message object that \<open>addMessage\<close> returned, in the order of
  the calls, since the log was last cleared. \<open>acc\<close> is the log before the calls.
\<close>

fun history :: "Call list \<Rightarrow> Message list \<Rightarrow> Message list" where
  "history [] acc = acc"
| "history (AddMessage uid nick v uuid now # cs) acc =
     history cs
       (case fst (addMessage uid nick v uuid now \<lparr>messages = acc\<rparr>) of
          Inr msg \<Rightarrow> acc @ [msg]
        | Inl e \<Rightarrow> acc)"
| "history (ClearMessages # cs) acc = history cs []"
| "history (c # cs) acc = history cs acc"



text \<open>
  The time stamps recorded for a connection (\<open>this.rateLimitMap.get(socketId) || []\<close>),
  and those of them inside the window at \<open>now\<close>.
\<close>

definition recorded :: "SocketManager \<Rightarrow> jsstring \<Rightarrow> int list" where
  "recorded sm socketId = (case rateLimitMap sm socketId of Some ts \<Rightarrow> ts | None \<Rightarrow> [])"

definition inWindow :: "int \<Rightarrow> int list \<Rightarrow> int list" where
  "inWindow now ts = filter (\<lambda>t. now - t < 1000) ts"

text \<open>Successive calls of \<open>checkRateLimit\<close> for one connection, at the given times.\<close>

fun checkRateLimits :: "jsstring \<Rightarrow> int list \<Rightarrow> SocketManager \<Rightarrow> bool list \<times> SocketManager" where
  "checkRateLimits socketId [] sm = ([], sm)"
| "checkRateLimits socketId (now # nows) sm =
     (case checkRateLimit socketId now sm of (ok, sm1) \<Rightarrow>
        (case checkRateLimits socketId nows sm1 of (oks, sm2) \<Rightarrow> (ok # oks, sm2)))"

text \<open>The entries of the registry as pairs of connection and nickname.\<close>

definition labelled :: "(jsstring \<times> User) list \<Rightarrow> (jsstring \<times> jsstring) list" where
  "labelled al = map (\<lambda>p. (fst p, nickname_u (snd p))) al"

text \<open>
  A connection has completed a join when the manager has sent it \<open>join-success\<close>.
\<close>

fun isJoinSuccessFor :: "jsstring \<Rightarrow> Emit \<Rightarrow> bool" where
  "isJoinSuccessFor s (SocketEmit s' (JoinSuccess n us ms)) = (s' = s)"
| "isJoinSuccessFor s e = False"

definition completedJoin :: "jsstring \<Rightarrow> Emit list \<Rightarrow> bool" where
  "completedJoin s out = list_ex (isJoinSuccessFor s) out"

text \<open>
  What holds of the registry in every state the methods can reach: the nicknames differ
  after lower-casing, the keys of the map differ, and there are at most \<open>MAX_USERS\<close>
  entries.
\<close>

definition registryInv :: "(jsstring \<Rightarrow> jsstring) \<Rightarrow> UserManager \<Rightarrow> bool" where
  "registryInv lc um \<longleftrightarrow>
     distinct (map (\<lambda>user. lc (nickname_u user)) (map snd (users um))) \<and>
     distinct (map fst (users um)) \<and>
     length (users um) \<le> MAX_USERS"

section \<open>Example states\<close>

text \<open>A log of two messages, \<open>a1\<close> from Ann and then \<open>a2\<close> from Bob.\<close>

definition twoMessages :: MessageStore where
  "twoMessages =
     snd (addMessage (js ''s2'') (js ''Bob'') (JStr (js ''a2'')) (js ''m2'') 2
       (snd (addMessage (js ''s1'') (js ''Ann'') (JStr (js ''a1'')) (js ''m1'') 1 emptyStore)))"

text \<open>One hundred and five valid appends, numbered 1 to 105 by identifier and time.\<close>

definition hundredFive :: "Call list" where
  "hundredFive =
     map (\<lambda>i. AddMessage (js ''s1'') (js ''Ann'') (JStr (js ''hi'')) [of_nat i] (int i)) [1..<106]"

text \<open>
  Fifty joins by fifty connections. The nickname of the \<open>i\<close>-th is the single
  ideograph with code unit \<open>4E00 + i\<close> (hexadecimal), which \<open>validPattern\<close> admits.
\<close>

definition kanji :: "nat \<Rightarrow> 16 word" where
  "kanji i = of_nat (19968 + i)"

definition fiftyJoins :: "Call list" where
  "fiftyJoins = map (\<lambda>i. AddUser [of_nat i] (JStr [kanji i]) (int i)) [0..<50]"






text \<open>
  Alice joins on connection \<open>s1\<close>; connection \<open>s2\<close> asks for the name \<open>alice\<close>, is
  refused, and tries to send without having joined.
\<close>

definition lateDisconnect :: "Event list" where
  "lateDisconnect =
     [Connection (js ''s1''), JoinRoom (js ''s1'') (Some (JStr (js ''Alice''))) 1,
      Connection (js ''s2''), JoinRoom (js ''s2'') (Some (JStr (js ''alice''))) 2,
      SendMessage (js ''s2'') (Some (JStr (js ''hi''))) (js ''m1'') 3 3]"

section \<open>Facts about strings and arrays\<close>

lemma replaceAll_Nil: "replaceAll c r [] = []"
  by (simp add: replaceAll_def)

lemma replaceAll_Cons: "replaceAll c r (x # xs) = (if x = c then r else [x]) @ replaceAll c r xs"
  by (simp add: replaceAll_def)

lemma replaceAll_append: "replaceAll c r (xs @ ys) = replaceAll c r xs @ replaceAll c r ys"
  by (simp add: replaceAll_def)

lemma sanitizeMessage_Nil: "sanitizeMessage [] = []"
  by (simp add: sanitizeMessage_def replaceAll_Nil)

lemma sanitizeMessage_Cons: "sanitizeMessage (x # xs) = escapeUnit x @ sanitizeMessage xs"
  by (simp add: sanitizeMessage_def escapeUnit_def replaceAll_Cons replaceAll_append
      replaceAll_Nil js_def)

lemma sanitizeMessage_concat: "sanitizeMessage m = concat (map escapeUnit m)"
  by (induction m) (simp_all add: sanitizeMessage_Nil sanitizeMessage_Cons)

lemma escapeUnit_id_iff: "escapeUnit c = [c] \<longleftrightarrow> c \<notin> {0x26, 0x3C, 0x3E, 0x22, 0x27, 0x2F}"
  by (simp add: escapeUnit_def js_def)

lemma addMessage_valid:
  assumes "validateMessage (JStr m) = Inr ()"
  shows "addMessage uid nick (JStr m) uuid now st =
           (Inr \<lparr>id_m = uuid, userId = uid, nickname_m = trim nick,
                 message = sanitizeMessage (trim m), timestamp = now\<rparr>,
            st\<lparr>messages := lastN MAX_MESSAGES
                 (messages st @ [\<lparr>id_m = uuid, userId = uid, nickname_m = trim nick,
                 message = sanitizeMessage (trim m), timestamp = now\<rparr>])\<rparr>)"
  using assms by (simp add: addMessage_def Let_def lastN_def)

lemma slice_neg: "0 < k \<Longrightarrow> slice (- k) xs = lastN (nat k) xs"
proof -
  assume k: "0 < k"
  have "nat (max (int (length xs) + - k) 0) = length xs - nat k"
    using k by (simp add: max_def) linarith
  with k show ?thesis
    by (simp add: slice_def lastN_def Let_def)
qed

lemma getRecentMessages_lastN:
  "getRecentMessages limit st = lastN (min (nat (max 1 limit)) (length (messages st))) (messages st)"
proof (cases "messages st = []")
  case True
  then show ?thesis
    by (simp add: getRecentMessages_def slice_def lastN_def)
next
  case False
  then have pos: "0 < min (max 1 limit) (int (length (messages st)))"
    by simp
  have "nat (min (max 1 limit) (int (length (messages st)))) =
        min (nat (max 1 limit)) (length (messages st))"
    by (simp add: min_def max_def)
  with slice_neg [OF pos, of "messages st"] show ?thesis
    by (simp add: getRecentMessages_def Let_def)
qed

lemma trim_ex: "trim (js ''<b>hi</b>'') = js ''<b>hi</b>''"
  by (simp add: trim_def js_def isWhiteSpace_def)

lemma valid_ex: "validateMessage (JStr (js ''<b>hi</b>'')) = Inr ()"
  by (simp add: validateMessage_def trim_ex MESSAGE_MIN_LENGTH_def MESSAGE_MAX_LENGTH_def)
   (simp add: js_def isInvalidChar_def)

lemma escape_ex: "concat (map escapeUnit (js ''<b>hi</b>'')) = js ''&lt;b&gt;hi&lt;&#x2F;b&gt;''"
  by (simp add: escapeUnit_def js_def)

section \<open>The message log\<close>

text \<open>
  Claim C1, as amended. For every valid message body, \<open>addMessage\<close> stores the trimmed
  body with each code unit escaped by \<open>escapeUnit\<close>: the six characters
  \<open>& < > " ' /\<close> become entities and every other code unit is kept. The message
  returned is the one \<open>getRecentMessages 1\<close> returns right afterwards.
\<close>

theorem append_escapes_six:
  assumes "validateMessage (JStr m) = Inr ()"
  shows "fst (addMessage uid nick (JStr m) uuid now st) =
           Inr \<lparr>id_m = uuid, userId = uid, nickname_m = trim nick,
                 message = concat (map escapeUnit (trim m)), timestamp = now\<rparr>
       \<and> getRecentMessages 1 (snd (addMessage uid nick (JStr m) uuid now st)) =
           [\<lparr>id_m = uuid, userId = uid, nickname_m = trim nick,
                 message = concat (map escapeUnit (trim m)), timestamp = now\<rparr>]
       \<and> (\<forall>c. (escapeUnit c = [c]) = (c \<notin> {0x26, 0x3C, 0x3E, 0x22, 0x27, 0x2F}))"
proof -
  let ?obj = "\<lparr>id_m = uuid, userId = uid, nickname_m = trim nick,
                 message = concat (map escapeUnit (trim m)), timestamp = now\<rparr>"
  have add: "addMessage uid nick (JStr m) uuid now st =
      (Inr ?obj, st\<lparr>messages := lastN MAX_MESSAGES (messages st @ [?obj])\<rparr>)"
    using addMessage_valid [OF assms] by (simp add: sanitizeMessage_concat)
  have "getRecentMessages 1 (st\<lparr>messages := lastN MAX_MESSAGES (messages st @ [?obj])\<rparr>) = [?obj]"
    by (simp add: getRecentMessages_lastN MAX_MESSAGES_def lastN_def)
  with add show ?thesis
    by (simp add: escapeUnit_id_iff)
qed

text \<open>
  The instance of the specification: the body \<open><b>hi</b>\<close> is stored and returned as
  \<open>&lt;b&gt;hi&lt;&#x2F;b&gt;\<close>.
\<close>

theorem append_escapes_six_witness:
  "validateMessage (JStr (js ''<b>hi</b>'')) = Inr ()
   \<and> getRecentMessages 1
       (snd (addMessage (js ''s1'') (js ''Alice'') (JStr (js ''<b>hi</b>'')) (js ''m1'') 0 emptyStore)) =
     [\<lparr>id_m = js ''m1'', userId = js ''s1'', nickname_m = trim (js ''Alice''),
       message = js ''&lt;b&gt;hi&lt;&#x2F;b&gt;'', timestamp = 0\<rparr>]"
  using append_escapes_six [OF valid_ex, of "js ''s1''" "js ''Alice''" "js ''m1''" 0 emptyStore]
  by (simp add: valid_ex trim_ex escape_ex)

text \<open>
  Claim C1 as stated fails: the slash is a sixth escaped character, so \<open><b>hi</b>\<close> is
  not stored as \<open>&lt;b&gt;hi&lt;/b&gt;\<close>.
\<close>

theorem append_five_escapes_counterexample:
  "map message (getRecentMessages 1
       (snd (addMessage (js ''s1'') (js ''Alice'') (JStr (js ''<b>hi</b>'')) (js ''m1'') 0 emptyStore)))
     = [js ''&lt;b&gt;hi&lt;&#x2F;b&gt;'']
   \<and> js ''&lt;b&gt;hi&lt;&#x2F;b&gt;'' \<noteq> js ''&lt;b&gt;hi&lt;/b&gt;''
   \<and> sanitizeMessage (js ''/'') \<noteq> js ''/''"
proof -
  have "addMessage (js ''s1'') (js ''Alice'') (JStr (js ''<b>hi</b>'')) (js ''m1'') 0 emptyStore =
     (Inr \<lparr>id_m = js ''m1'', userId = js ''s1'', nickname_m = trim (js ''Alice''),
           message = js ''&lt;b&gt;hi&lt;&#x2F;b&gt;'', timestamp = 0\<rparr>,
      \<lparr>messages = [\<lparr>id_m = js ''m1'', userId = js ''s1'', nickname_m = trim (js ''Alice''),
           message = js ''&lt;b&gt;hi&lt;&#x2F;b&gt;'', timestamp = 0\<rparr>]\<rparr>)"
    by (simp add: addMessage_valid [OF valid_ex] trim_ex sanitizeMessage_concat escape_ex
        emptyStore_def lastN_def MAX_MESSAGES_def)
  moreover have "js ''&lt;b&gt;hi&lt;&#x2F;b&gt;'' \<noteq> js ''&lt;b&gt;hi&lt;/b&gt;''"
    by (simp add: js_def)
  moreover have "sanitizeMessage (js ''/'') \<noteq> js ''/''"
    by (simp add: sanitizeMessage_concat escapeUnit_def js_def)
  ultimately show ?thesis
    by (simp add: getRecentMessages_lastN lastN_def)
qed

text \<open>
  Claim C9. For every integral \<open>limit\<close>, \<open>getRecentMessages limit\<close> returns the last
  \<open>min (max 1 limit) size\<close> stored messages in the order of the log (oldest first); on
  the empty log it returns the empty sequence.
\<close>

theorem recent_last_min:
  "getRecentMessages limit st = lastN (min (nat (max 1 limit)) (length (messages st))) (messages st)
   \<and> set (getRecentMessages limit st) \<subseteq> set (messages st)
   \<and> length (getRecentMessages limit st) = min (nat (max 1 limit)) (length (messages st))
   \<and> getRecentMessages limit emptyStore = []"
  by (simp add: getRecentMessages_lastN lastN_def emptyStore_def set_drop_subset)

text \<open>
  Claim C10. When the body is not a string, or its trimmed length is outside 1 to 500
  (the empty and the all-white-space body have trimmed length 0), or it holds a
  forbidden control character, \<open>addMessage\<close> throws \<open>INVALID_MESSAGE\<close> and the log is the
  one before the call: nothing is appended, nothing evicted, and the count is the same.
\<close>

theorem invalid_append_leaves_log:
  assumes "v = JOther \<or> (\<exists>m. v = JStr m \<and>
             (length (trim m) < 1 \<or> 500 < length (trim m) \<or> list_ex isInvalidChar m))"
  shows "addMessage uid nick v uuid now st = (Inl INVALID_MESSAGE, st)
       \<and> getMessageCount (snd (addMessage uid nick v uuid now st)) = getMessageCount st
       \<and> after lc (AddMessage uid nick v uuid now) (um, st) = (um, st)"
proof -
  from assms have "addMessage uid nick v uuid now st = (Inl INVALID_MESSAGE, st)"
    by (auto simp add: addMessage_def validateMessage_def MESSAGE_MIN_LENGTH_def
        MESSAGE_MAX_LENGTH_def Let_def trim_def)
  then show ?thesis
    by simp
qed

text \<open>
  An instance: a body of two spaces is refused, and the log of one message stays as it
  was.
\<close>

theorem invalid_append_leaves_log_witness:
  "length (trim [0x20, 0x20]) < 1 \<and>
   addMessage (js ''s1'') (js ''Alice'') (JStr [0x20, 0x20]) (js ''m2'') 7
     \<lparr>messages = [\<lparr>id_m = js ''m1'', userId = js ''s1'', nickname_m = js ''Alice'',
                    message = js ''hi'', timestamp = 3\<rparr>]\<rparr> =
   (Inl INVALID_MESSAGE,
     \<lparr>messages = [\<lparr>id_m = js ''m1'', userId = js ''s1'', nickname_m = js ''Alice'',
                    message = js ''hi'', timestamp = 3\<rparr>]\<rparr>)"
proof -
  have short: "length (trim [0x20, 0x20]) < 1"
    by (simp add: trim_def isWhiteSpace_def)
  then have "JStr [0x20, 0x20] = JOther \<or> (\<exists>m. JStr [0x20, 0x20] = JStr m \<and>
      (length (trim m) < 1 \<or> 500 < length (trim m) \<or> list_ex isInvalidChar m))"
    by blast
  from invalid_append_leaves_log [OF this, of "js ''s1''" "js ''Alice''" "js ''m2''" 7] short
  show ?thesis
    by blast
qed

lemma includes_str_sublist: "includes_str s t \<longleftrightarrow> sublist t s"
  by (induction s) (simp_all add: sublist_Cons_right)

lemma trim_Nil_iff: "trim s = [] \<longleftrightarrow> list_all isWhiteSpace s"
proof -
  have "(\<forall>x\<in>set (dropWhile isWhiteSpace s). isWhiteSpace x) \<longleftrightarrow> (\<forall>x\<in>set s. isWhiteSpace x)"
    by (induction s) auto
  then show ?thesis
    by (simp add: trim_def dropWhile_eq_Nil_conv list_all_iff)
qed

lemma lastN_length: "length (lastN k xs) = min k (length xs)"
  by (simp add: lastN_def)

lemma lastN_subseq: "subseq (lastN k xs) xs"
  by (simp add: lastN_def suffix_drop suffix_imp_subseq)

lemmas eval_string = js_def trim_def isWhiteSpace_def isInvalidChar_def toLowerCaseASCII_def
  escapeUnit_def

lemma messages_twoMessages:
  "messages twoMessages =
     [\<lparr>id_m = js ''m1'', userId = js ''s1'', nickname_m = js ''Ann'',
       message = js ''a1'', timestamp = 1\<rparr>,
      \<lparr>id_m = js ''m2'', userId = js ''s2'', nickname_m = js ''Bob'',
       message = js ''a2'', timestamp = 2\<rparr>]"
proof -
  have v1: "validateMessage (JStr (js ''a1'')) = Inr ()"
    by (simp add: validateMessage_def MESSAGE_MIN_LENGTH_def MESSAGE_MAX_LENGTH_def eval_string)
  have v2: "validateMessage (JStr (js ''a2'')) = Inr ()"
    by (simp add: validateMessage_def MESSAGE_MIN_LENGTH_def MESSAGE_MAX_LENGTH_def eval_string)
  show ?thesis
    unfolding twoMessages_def addMessage_valid [OF v1] addMessage_valid [OF v2]
    by (simp add: emptyStore_def lastN_def MAX_MESSAGES_def sanitizeMessage_concat eval_string)
qed

lemma searchMessages_pos:
  assumes "term \<noteq> []" and "trim (lc term) \<noteq> []" and "0 < limit"
  shows "searchMessages lc (JStr term) limit st =
     lastN (nat limit)
       (filter (\<lambda>msg. sublist (trim (lc term)) (lc (message msg)) \<or>
                       sublist (trim (lc term)) (lc (nickname_m msg))) (messages st))"
  using assms by (simp add: searchMessages_def Let_def slice_neg includes_str_sublist)

text \<open>
  Claim C2, as amended. For a term that is not empty and not only white space once
  lower-cased, and a limit of at least 1, \<open>searchMessages\<close> returns the last \<open>limit\<close>
  of the stored messages whose body or nickname, lower-cased, contains the lower-cased
  and trimmed term; they come in the order of the log, oldest first. An empty term, or
  one that is only white space, yields the empty result.
\<close>

theorem search_recent_matches_oldest_first:
  "(term \<noteq> [] \<and> trim (lc term) \<noteq> [] \<and> 0 < limit \<longrightarrow>
      searchMessages lc (JStr term) limit st =
        lastN (nat limit)
          (filter (\<lambda>msg. sublist (trim (lc term)) (lc (message msg)) \<or>
                          sublist (trim (lc term)) (lc (nickname_m msg))) (messages st))
      \<and> length (searchMessages lc (JStr term) limit st) \<le> nat limit
      \<and> subseq (searchMessages lc (JStr term) limit st) (messages st))
   \<and> (term = [] \<or> list_all isWhiteSpace (lc term) \<longrightarrow>
        searchMessages lc (JStr term) limit st = [])"
proof -
  have "searchMessages lc (JStr term) limit st = []"
    if "term = [] \<or> list_all isWhiteSpace (lc term)"
    using that by (auto simp add: searchMessages_def Let_def trim_Nil_iff)
  moreover have "subseq (lastN (nat limit) (filter P (messages st))) (messages st)" for P
    using lastN_subseq subseq_filter_left subseq_order.order_trans by blast
  ultimately show ?thesis
    by (simp add: searchMessages_pos lastN_length)
qed

text \<open>
  An instance: the term \<open>A\<close> between two spaces with limit 1 finds the newer of the two
  messages, and a term of two spaces finds nothing.
\<close>

theorem search_recent_matches_oldest_first_witness:
  "js '' A '' \<noteq> [] \<and> trim (toLowerCaseASCII (js '' A '')) \<noteq> [] \<and> (0::int) < 1
   \<and> map message (searchMessages toLowerCaseASCII (JStr (js '' A '')) 1 twoMessages) = [js ''a2'']
   \<and> list_all isWhiteSpace (toLowerCaseASCII (js ''  ''))
   \<and> searchMessages toLowerCaseASCII (JStr (js ''  '')) 1 twoMessages = []"
proof -
  have t: "trim (toLowerCaseASCII (js '' A '')) = js ''a''"
    by (simp add: eval_string)
  have ne: "js '' A '' \<noteq> []" "js ''a'' \<noteq> []"
    by (simp_all add: js_def)
  have ws: "list_all isWhiteSpace (toLowerCaseASCII (js ''  ''))"
    by (simp add: eval_string)
  have "map message (lastN (nat 1)
          (filter (\<lambda>msg. sublist (js ''a'') (toLowerCaseASCII (message msg)) \<or>
                          sublist (js ''a'') (toLowerCaseASCII (nickname_m msg)))
             (messages twoMessages))) = [js ''a2'']"
    by (simp add: messages_twoMessages includes_str_sublist [symmetric] lastN_def eval_string)
  with search_recent_matches_oldest_first
         [of "js '' A ''" toLowerCaseASCII 1 twoMessages]
       search_recent_matches_oldest_first
         [of "js ''  ''" toLowerCaseASCII 1 twoMessages]
       t ne ws
  show ?thesis
    by simp
qed

text \<open>
  Claim C2 as stated fails: both messages match \<open>a\<close>, and the older one comes first.
  With limit 0 both are returned, too. The term \<open>a\<close> between two spaces finds both,
  though neither holds it with its spaces.
\<close>

theorem search_most_recent_first_counterexample:
  "map message (searchMessages toLowerCaseASCII (JStr (js ''a'')) 10 twoMessages) =
     [js ''a1'', js ''a2'']
   \<and> map timestamp (searchMessages toLowerCaseASCII (JStr (js ''a'')) 10 twoMessages) = [1, 2]
   \<and> map message (searchMessages toLowerCaseASCII (JStr (js ''a'')) 10 twoMessages) \<noteq>
       [js ''a2'', js ''a1'']
   \<and> length (searchMessages toLowerCaseASCII (JStr (js ''a'')) 0 twoMessages) = 2
   \<and> map message (searchMessages toLowerCaseASCII (JStr (js '' a '')) 10 twoMessages) =
       [js ''a1'', js ''a2'']
   \<and> \<not> includes_str (js ''a1'') (js '' a '') \<and> \<not> includes_str (js ''a2'') (js '' a '')
   \<and> \<not> includes_str (js ''ann'') (js '' a '') \<and> \<not> includes_str (js ''bob'') (js '' a '')"
  by (simp add: searchMessages_def Let_def messages_twoMessages slice_def eval_string)

section \<open>The rate limiter\<close>

lemma checkRateLimit_eq:
  "checkRateLimit s now sm =
     (if 3 \<le> length (inWindow now (recorded sm s)) then (False, sm)
      else (True, sm\<lparr>rateLimitMap := (rateLimitMap sm)(s \<mapsto> inWindow now (recorded sm s) @ [now])\<rparr>))"
  by (simp add: checkRateLimit_def recorded_def inWindow_def Let_def RATE_LIMIT_WINDOW_MS_def
      RATE_LIMIT_PER_SECOND_def)

lemma four_sends:
  assumes empty: "recorded sm s = []"
    and ord: "t1 \<le> t2" "t2 \<le> t3" "t3 \<le> t4" and within: "t4 - t1 < 1000"
    and later: "1000 \<le> t5 - t1"
  shows "fst (checkRateLimits s [t1, t2, t3, t4, t5] sm) = [True, True, True, False, True]"
proof -
  obtain sm1 where c1: "checkRateLimit s t1 sm = (True, sm1)" and r1: "recorded sm1 s = [t1]"
    using empty by (simp add: checkRateLimit_eq inWindow_def recorded_def)
  obtain sm2 where c2: "checkRateLimit s t2 sm1 = (True, sm2)" and r2: "recorded sm2 s = [t1, t2]"
    using r1 ord within by (simp add: checkRateLimit_eq inWindow_def recorded_def)
  obtain sm3 where c3: "checkRateLimit s t3 sm2 = (True, sm3)" and r3: "recorded sm3 s = [t1, t2, t3]"
    using r2 ord within by (simp add: checkRateLimit_eq inWindow_def recorded_def)
  have c4: "checkRateLimit s t4 sm3 = (False, sm3)"
    using r3 ord within by (simp add: checkRateLimit_eq inWindow_def)
  have "length (inWindow t5 (recorded sm3 s)) < 3"
    using r3 later by (simp add: inWindow_def)
  then obtain sm5 where c5: "checkRateLimit s t5 sm3 = (True, sm5)"
    by (simp add: checkRateLimit_eq)
  show ?thesis
    using c1 c2 c3 c4 c5 by simp
qed

text \<open>
  Claim C3. \<open>checkRateLimit\<close> keeps of the connection's recorded time stamps those less
  than 1000 ms old; it returns true exactly when fewer than 3 remain, and then records
  \<open>now\<close> after them; otherwise it returns false and changes nothing. No other
  connection's record is touched. Hence, for a connection with nothing recorded, of four
  calls within one second the first three return true and the fourth false, and a call
  one second or more after the first returns true.
\<close>

theorem tryAcquire_sliding_window:
  "(fst (checkRateLimit s now sm) \<longleftrightarrow> length (inWindow now (recorded sm s)) < 3)
   \<and> (\<not> fst (checkRateLimit s now sm) \<longrightarrow> snd (checkRateLimit s now sm) = sm)
   \<and> (fst (checkRateLimit s now sm) \<longrightarrow>
        recorded (snd (checkRateLimit s now sm)) s = inWindow now (recorded sm s) @ [now])
   \<and> (s' \<noteq> s \<longrightarrow> recorded (snd (checkRateLimit s now sm)) s' = recorded sm s')
   \<and> (recorded sm s = [] \<and> t1 \<le> t2 \<and> t2 \<le> t3 \<and> t3 \<le> t4 \<and> t4 - t1 < 1000 \<and> 1000 \<le> t5 - t1 \<longrightarrow>
        fst (checkRateLimits s [t1, t2, t3, t4, t5] sm) = [True, True, True, False, True])"
proof -
  have "s' \<noteq> s \<Longrightarrow> recorded (snd (checkRateLimit s now sm)) s' = recorded sm s'"
    by (simp add: checkRateLimit_eq recorded_def)
  moreover have "fst (checkRateLimit s now sm) \<Longrightarrow>
        recorded (snd (checkRateLimit s now sm)) s = inWindow now (recorded sm s) @ [now]"
    by (simp add: checkRateLimit_eq recorded_def split: if_splits)
  ultimately show ?thesis
    using four_sends [of sm s t1 t2 t3 t4 t5] by (simp add: checkRateLimit_eq)
qed

text \<open>
  An instance: a fresh connection calling at 0, 300, 600, 900 and 1001 ms. Its first
  call records 0 and leaves the record of another connection empty; the call at 900,
  with 0, 300 and 600 recorded, is refused and changes nothing.
\<close>

theorem tryAcquire_sliding_window_witness:
  "recorded (snd (handleConnection (js ''s1'') initialManager)) (js ''s1'') = []
   \<and> fst (checkRateLimits (js ''s1'') [0, 300, 600, 900, 1001]
        (snd (handleConnection (js ''s1'') initialManager))) = [True, True, True, False, True]
   \<and> fst (checkRateLimit (js ''s1'') 0 (snd (handleConnection (js ''s1'') initialManager)))
   \<and> recorded (snd (checkRateLimit (js ''s1'') 0 (snd (handleConnection (js ''s1'') initialManager))))
         (js ''s1'') = [0]
   \<and> js ''s2'' \<noteq> js ''s1''
   \<and> recorded (snd (checkRateLimit (js ''s1'') 0 (snd (handleConnection (js ''s1'') initialManager))))
         (js ''s2'') = []
   \<and> \<not> fst (checkRateLimit (js ''s1'') 900
             (initialManager\<lparr>rateLimitMap := [js ''s1'' \<mapsto> [0, 300, 600]]\<rparr>))
   \<and> snd (checkRateLimit (js ''s1'') 900
             (initialManager\<lparr>rateLimitMap := [js ''s1'' \<mapsto> [0, 300, 600]]\<rparr>)) =
       initialManager\<lparr>rateLimitMap := [js ''s1'' \<mapsto> [0, 300, 600]]\<rparr>"
proof -
  let ?sm = "snd (handleConnection (js ''s1'') initialManager)"
  let ?busy = "initialManager\<lparr>rateLimitMap := [js ''s1'' \<mapsto> [0, 300, 600]]\<rparr>"
  have ne: "js ''s2'' \<noteq> js ''s1''"
    by (simp add: js_def)
  have e: "recorded ?sm (js ''s1'') = []" "recorded ?sm (js ''s2'') = []"
    by (simp_all add: handleConnection_def recorded_def initialManager_def ne)
  have b: "recorded ?busy (js ''s1'') = [0, 300, 600]"
    by (simp add: recorded_def)
  note t1 = tryAcquire_sliding_window
      [where s = "js ''s1''" and now = 0 and sm = ?sm and s' = "js ''s2''"
         and ?t1.0 = 0 and ?t2.0 = 300 and ?t3.0 = 600 and ?t4.0 = 900 and ?t5.0 = 1001]
  note t2 = tryAcquire_sliding_window
      [where s = "js ''s1''" and now = 900 and sm = ?busy and s' = "js ''s2''"
         and ?t1.0 = 0 and ?t2.0 = 300 and ?t3.0 = 600 and ?t4.0 = 900 and ?t5.0 = 1001]
  from t1 e have run: "fst (checkRateLimits (js ''s1'') [0, 300, 600, 900, 1001] ?sm) =
      [True, True, True, False, True]"
    by simp
  from t1 e have ok: "fst (checkRateLimit (js ''s1'') 0 ?sm)"
    by (simp add: inWindow_def)
  with t1 e have rec: "recorded (snd (checkRateLimit (js ''s1'') 0 ?sm)) (js ''s1'') = [0]"
    by (simp add: inWindow_def)
  from t1 e ne have other: "recorded (snd (checkRateLimit (js ''s1'') 0 ?sm)) (js ''s2'') = []"
    by simp
  from t2 b have no: "\<not> fst (checkRateLimit (js ''s1'') 900 ?busy)"
    by (simp add: inWindow_def)
  with t2 have same: "snd (checkRateLimit (js ''s1'') 900 ?busy) = ?busy"
    by blast
  from e(1) run ok rec ne other no same show ?thesis
    by (simp only: simp_thms)
qed

section \<open>The bound of the log\<close>

lemma lastN_lastN_snoc: "lastN k (lastN k xs @ [x]) = lastN k (xs @ [x])"
proof (cases "length xs \<le> k")
  case True
  then show ?thesis by (simp add: lastN_def)
next
  case False
  then have "length xs - k + (Suc k - k) = Suc (length xs) - k" "Suc k - k = 1"
    by simp_all
  with False show ?thesis
    by (cases k) (simp_all add: lastN_def Suc_diff_le)
qed

lemma addMessage_fst_store: "fst (addMessage uid nick v uuid now st) = fst (addMessage uid nick v uuid now st')"
  by (simp add: addMessage_def Let_def split: sum.splits jsval.splits)

lemma addMessage_messages:
  "messages (snd (addMessage uid nick v uuid now st)) =
     (case fst (addMessage uid nick v uuid now st) of
        Inr msg \<Rightarrow> lastN MAX_MESSAGES (messages st @ [msg])
      | Inl e \<Rightarrow> messages st)"
  by (simp add: addMessage_def Let_def lastN_def split: sum.splits jsval.splits)

lemma after_history:
  assumes "messages ms = lastN MAX_MESSAGES H"
  shows "messages (snd (after lc c (um, ms))) = lastN MAX_MESSAGES (history [c] H)"
proof (cases c)
  case (AddMessage uid nick v uuid now)
  have "fst (addMessage uid nick v uuid now ms) = fst (addMessage uid nick v uuid now \<lparr>messages = H\<rparr>)"
    by (rule addMessage_fst_store)
  then show ?thesis
    using assms AddMessage
    by (simp add: addMessage_messages lastN_lastN_snoc split: sum.splits)
next
  case ClearMessages
  then show ?thesis by (simp add: clearMessages_def lastN_def)
qed (use assms in simp_all)

lemma history_Cons: "history (c # cs) H = history cs (history [c] H)"
  by (cases c) simp_all

lemma afterAll_history:
  "messages ms = lastN MAX_MESSAGES H \<Longrightarrow>
   messages (snd (afterAll lc cs (um, ms))) = lastN MAX_MESSAGES (history cs H)"
proof (induction cs arbitrary: um ms H)
  case Nil
  then show ?case by simp
next
  case (Cons c cs)
  obtain um1 ms1 where s1: "after lc c (um, ms) = (um1, ms1)"
    by (cases "after lc c (um, ms)")
  with after_history [OF Cons.prems, of lc c um]
  have "messages ms1 = lastN MAX_MESSAGES (history [c] H)"
    by simp
  from Cons.IH [OF this, of um1] s1 show ?case
    by (simp add: history_Cons [of c cs H])
qed

lemma after_read: "isRead c \<Longrightarrow> after lc c s = s"
  by (cases c; cases s) simp_all

lemma afterAll_reads: "list_all isRead rs \<Longrightarrow> afterAll lc rs s = s"
  by (induction rs arbitrary: s) (simp_all add: after_read)

lemma history_valid_adds:
  assumes "validateMessage (JStr m) = Inr ()"
  shows "history (map (\<lambda>i. AddMessage uid nick (JStr m) (f i) (g i)) is) acc =
         acc @ map (\<lambda>i. \<lparr>id_m = f i, userId = uid, nickname_m = trim nick,
                         message = sanitizeMessage (trim m), timestamp = g i\<rparr>) is"
  by (induction "is" arbitrary: acc) (simp_all add: addMessage_valid [OF assms])

lemma checkRateLimit_fields:
  "userManager (snd (checkRateLimit s now sm)) = userManager sm"
  "messageStore (snd (checkRateLimit s now sm)) = messageStore sm"
  by (simp_all add: checkRateLimit_eq)

lemma run_Cons_snd: "snd (run lc (e # es) sm) = snd (run lc es (snd (handle lc e sm)))"
  by (simp split: prod.splits)

lemma addMessage_bound:
  "length (messages st) \<le> MAX_MESSAGES \<Longrightarrow>
   length (messages (snd (addMessage uid nick v uuid now st))) \<le> MAX_MESSAGES"
  by (simp add: addMessage_messages lastN_length split: sum.splits)

lemma handle_messageStore:
  "messageStore (snd (handle lc e sm)) = messageStore sm \<or>
   (\<exists>uid nick v uuid sent.
      messageStore (snd (handle lc e sm)) = snd (addMessage uid nick v uuid sent (messageStore sm)))"
proof (cases e)
  case (SendMessage s d uuid now sent)
  show ?thesis
  proof (cases "checkRateLimit s now sm")
    case (Pair ok sm1)
    with checkRateLimit_fields(2) [of s now sm] have "messageStore sm1 = messageStore sm"
      by simp
    with Pair SendMessage show ?thesis
      by (auto simp add: handleSendMessage_def
          split: option.splits prod.splits sum.splits bool.splits)
        (metis snd_conv)+
  qed
qed (auto simp add: handleConnection_def handleJoinRoom_def handleDisconnect_def
       split: option.splits prod.splits sum.splits)

lemma handle_bound:
  assumes "length (messages (messageStore sm)) \<le> MAX_MESSAGES"
  shows "length (messages (messageStore (snd (handle lc e sm)))) \<le> MAX_MESSAGES"
  using handle_messageStore [of lc e sm] addMessage_bound [OF assms] assms
  by auto

lemma run_bound:
  "length (messages (messageStore sm)) \<le> MAX_MESSAGES \<Longrightarrow>
   length (messages (messageStore (snd (run lc es sm)))) \<le> MAX_MESSAGES"
proof (induction es arbitrary: sm)
  case Nil
  then show ?case by simp
next
  case (Cons e es)
  from Cons.IH [OF handle_bound [OF Cons.prems, of lc e]] show ?case
    by (simp only: run_Cons_snd)
qed

text \<open>
  Claim C4. After every sequence of calls on the empty log, the log holds the last 100
  messages of the unbounded history in the order they were appended, so at most 100,
  the oldest evicted first; the log of the manager holds at most 100 after every run of
  events, too. Calls that only read leave the state as it is. When 105 messages have
  been appended, \<open>getRecentMessages 100\<close> returns the sixth to the last of them, oldest
  first.
\<close>

theorem log_keeps_last_hundred:
  "messages (snd (afterAll lc calls (um, emptyStore))) = lastN 100 (history calls [])
   \<and> length (messages (snd (afterAll lc calls (um, emptyStore)))) \<le> 100
   \<and> length (messages (messageStore (snd (run lc events initialManager)))) \<le> 100
   \<and> (list_all isRead reads \<longrightarrow> afterAll lc reads s = s)
   \<and> (length (history calls []) = 105 \<longrightarrow>
        getRecentMessages 100 (snd (afterAll lc calls (um, emptyStore))) = drop 5 (history calls []))"
proof -
  have "messages emptyStore = lastN MAX_MESSAGES []"
    by (simp add: emptyStore_def lastN_def)
  from afterAll_history [OF this, of lc calls um]
  have m: "messages (snd (afterAll lc calls (um, emptyStore))) = lastN 100 (history calls [])"
    by (simp add: MAX_MESSAGES_def)
  have "length (messages (messageStore initialManager)) \<le> MAX_MESSAGES"
    by (simp add: initialManager_def emptyStore_def)
  from run_bound [OF this, of lc events]
  have "length (messages (messageStore (snd (run lc events initialManager)))) \<le> 100"
    by (simp add: MAX_MESSAGES_def)
  with m show ?thesis
    by (simp add: afterAll_reads getRecentMessages_lastN lastN_def)
qed

text \<open>
  An instance: after the 105 appends numbered 1 to 105, the 100 most recent messages
  are those numbered 6 to 105, in this order.
\<close>

theorem log_keeps_last_hundred_witness:
  "length (history hundredFive []) = 105
   \<and> map timestamp
       (getRecentMessages 100 (snd (afterAll toLowerCaseASCII hundredFive (emptyUsers, emptyStore))))
     = map int [6..<106]
   \<and> list_all isRead [GetRecentMessages 100, GetStatistics]
   \<and> afterAll toLowerCaseASCII [GetRecentMessages 100, GetStatistics] (emptyUsers, twoMessages)
       = (emptyUsers, twoMessages)"
proof -
  have v: "validateMessage (JStr (js ''hi'')) = Inr ()"
    by (simp add: validateMessage_def MESSAGE_MIN_LENGTH_def MESSAGE_MAX_LENGTH_def eval_string)
  have h: "history hundredFive [] =
      map (\<lambda>i. \<lparr>id_m = [of_nat i], userId = js ''s1'', nickname_m = trim (js ''Ann''),
                 message = sanitizeMessage (trim (js ''hi'')), timestamp = int i\<rparr>) [1..<106]"
    unfolding hundredFive_def history_valid_adds [OF v] by simp
  have len: "length (history hundredFive []) = 105"
    unfolding h by simp
  have d: "map timestamp (drop 5 (history hundredFive [])) = map int [6..<106]"
    unfolding h by (simp add: drop_map comp_def)
  have r: "list_all isRead [GetRecentMessages 100, GetStatistics]"
    by simp
  from log_keeps_last_hundred
         [where lc = toLowerCaseASCII and calls = hundredFive and um = emptyUsers
            and reads = "[GetRecentMessages 100, GetStatistics]"
            and s = "(emptyUsers, twoMessages)"]
       len d r
  show ?thesis
    by simp
qed

section \<open>The participant registry\<close>

lemma addUser_valid:
  assumes "validateNickname (JStr n) = Inr ()"
  shows "addUser lc s (JStr n) now um =
     (if isNicknameExists lc n um then (Inl NICKNAME_TAKEN, um)
      else if MAX_USERS \<le> length (users um) then (Inl ROOM_FULL, um)
      else (Inr \<lparr>id_u = s, nickname_u = trim n, joinedAt = now\<rparr>,
            um\<lparr>users := AList.update s \<lparr>id_u = s, nickname_u = trim n, joinedAt = now\<rparr> (users um)\<rparr>))"
  using assms by (simp add: addUser_def Let_def)

lemma addUser_cases:
  obtains (fail) e where "addUser lc s v now um = (Inl e, um)"
  | (ok) n where "v = JStr n" "validateNickname (JStr n) = Inr ()" "\<not> isNicknameExists lc n um"
      "length (users um) < MAX_USERS"
      "addUser lc s v now um =
         (Inr \<lparr>id_u = s, nickname_u = trim n, joinedAt = now\<rparr>,
          um\<lparr>users := AList.update s \<lparr>id_u = s, nickname_u = trim n, joinedAt = now\<rparr> (users um)\<rparr>)"
proof (cases "validateNickname v")
  case (Inl e)
  then show ?thesis using fail by (simp add: addUser_def)
next
  case (Inr u)
  show ?thesis
  proof (cases v)
    case JOther
    with Inr show ?thesis by (simp add: validateNickname_def)
  next
    case (JStr n)
    with Inr have v: "validateNickname (JStr n) = Inr ()" by simp
    show ?thesis
      using fail ok [OF JStr v] JStr by (simp add: addUser_valid [OF v] split: if_splits) fastforce
  qed
qed

lemma isNicknameExists_iff:
  "isNicknameExists lc n um \<longleftrightarrow> lc (trim n) \<in> (\<lambda>p. lc (nickname_u (snd p))) ` set (users um)"
  by (force simp add: isNicknameExists_def Let_def list_ex_iff)

lemma length_update_le: "length (AList.update k v al) \<le> Suc (length al)"
  by (induction al) auto

lemma set_update_subset: "set (AList.update k v al) \<subseteq> insert (k, v) (set al)"
  by (induction al) auto

lemma distinct_values_update:
  "distinct (map f (map snd al)) \<Longrightarrow> f v \<notin> f ` snd ` set al \<Longrightarrow>
   distinct (map f (map snd (AList.update k v al)))"
proof (induction al)
  case Nil
  then show ?case by simp
next
  case (Cons p al)
  show ?case
  proof (cases "fst p = k")
    case True
    with Cons.prems show ?thesis by (auto simp add: image_iff)
  next
    case False
    have "f (snd p) \<notin> f ` snd ` set (AList.update k v al)"
    proof
      assume "f (snd p) \<in> f ` snd ` set (AList.update k v al)"
      then obtain q where q: "q \<in> set (AList.update k v al)" "f (snd p) = f (snd q)"
        by auto
      with set_update_subset [of k v al] have "q = (k, v) \<or> q \<in> set al"
        by auto
      with q Cons.prems show False
        by (auto simp add: image_iff)
    qed
    with False Cons show ?thesis
      by (simp add: image_iff)
  qed
qed

lemma registryInv_empty: "registryInv lc emptyUsers"
  by (simp add: registryInv_def emptyUsers_def)

lemma registryInv_addUser:
  assumes "registryInv lc um"
  shows "registryInv lc (snd (addUser lc s v now um))"
proof (cases rule: addUser_cases [of lc s v now um])
  case (fail e)
  with assms show ?thesis by simp
next
  case (ok n)
  let ?u = "\<lparr>id_u = s, nickname_u = trim n, joinedAt = now\<rparr>"
  have "lc (nickname_u ?u) \<notin> (\<lambda>user. lc (nickname_u user)) ` snd ` set (users um)"
    using ok(3) by (auto simp add: isNicknameExists_iff image_iff)
  with assms have "distinct (map (\<lambda>user. lc (nickname_u user)) (map snd (AList.update s ?u (users um))))"
    unfolding registryInv_def by (intro distinct_values_update) simp_all
  moreover have "length (AList.update s ?u (users um)) \<le> MAX_USERS"
    using ok(4) length_update_le [of s ?u "users um"] by simp
  ultimately show ?thesis
    using assms ok(5) by (simp add: registryInv_def distinct_update)
qed

lemma removeUser_eq:
  "removeUser s um = (map_of (users um) s, um\<lparr>users := AList.delete s (users um)\<rparr>)"
proof (cases "map_of (users um) s")
  case None
  then have "s \<notin> fst ` set (users um)"
    by (simp add: map_of_eq_None_iff)
  with None show ?thesis
    by (simp add: removeUser_def)
next
  case (Some u)
  then show ?thesis by (simp add: removeUser_def)
qed

lemma registryInv_removeUser:
  assumes "registryInv lc um"
  shows "registryInv lc (snd (removeUser s um))"
proof -
  have "length (AList.delete s (users um)) \<le> length (users um)"
    by (rule length_delete_le)
  moreover have "distinct (map (\<lambda>user. lc (nickname_u user)) (map snd (AList.delete s (users um))))"
    using assms unfolding registryInv_def AList.delete_eq map_map
    by (intro distinct_map_filter) (simp add: comp_def)
  ultimately show ?thesis
    using assms by (simp add: removeUser_eq registryInv_def distinct_delete)
qed

lemma registryInv_after:
  "registryInv lc (fst s) \<Longrightarrow> registryInv lc (fst (after lc c s))"
proof (cases s)
  case (Pair um ms)
  assume "registryInv lc (fst s)"
  with Pair have inv: "registryInv lc um" by simp
  have "registryInv lc (clearAllUsers um)"
    by (simp add: clearAllUsers_def registryInv_def)
  with inv Pair show ?thesis
    by (cases c) (simp_all add: registryInv_addUser registryInv_removeUser)
qed

lemma registryInv_afterAll:
  "registryInv lc (fst s) \<Longrightarrow> registryInv lc (fst (afterAll lc cs s))"
  by (induction cs arbitrary: s) (simp_all add: registryInv_after)

lemma registryInv_reachable: "registryInv lc (fst (afterAll lc cs (emptyUsers, ms)))"
  by (rule registryInv_afterAll) (simp add: registryInv_empty)

lemma validateNickname_error: "validateNickname v = Inl e \<Longrightarrow> e = INVALID_NICKNAME"
  by (auto simp add: validateNickname_def Let_def split: jsval.splits if_splits)

lemma addUser_invalid: "validateNickname v = Inl e \<Longrightarrow> addUser lc s v now um = (Inl INVALID_NICKNAME, um)"
  using validateNickname_error [of v e] by (simp add: addUser_def)

lemma duplicate_taken:
  assumes "getUser s um = Some user" and "validateNickname (JStr n) = Inr ()"
    and "lc (trim n) = lc (nickname_u user)"
  shows "addUser lc s' (JStr n) now um = (Inl NICKNAME_TAKEN, um)"
proof -
  from assms(1) have "(s, user) \<in> set (users um)"
    by (simp add: getUser_def map_of_SomeD)
  with assms(3) have "isNicknameExists lc n um"
    by (force simp add: isNicknameExists_iff)
  then show ?thesis
    by (simp add: addUser_valid [OF assms(2)])
qed

lemma free_after_leave:
  assumes inv: "registryInv lc um" and "getUser s um = Some user"
    and valid: "validateNickname (JStr n) = Inr ()"
    and dup: "lc (trim n) = lc (nickname_u user)"
  shows "addUser lc s' (JStr n) now (snd (removeUser s um)) =
     (Inr \<lparr>id_u = s', nickname_u = trim n, joinedAt = now\<rparr>,
      um\<lparr>users := AList.update s' \<lparr>id_u = s', nickname_u = trim n, joinedAt = now\<rparr>
                      (AList.delete s (users um))\<rparr>)"
proof -
  let ?g = "\<lambda>p. lc (nickname_u (snd p))"
  from assms(2) have mem: "(s, user) \<in> set (users um)"
    by (simp add: getUser_def map_of_SomeD)
  from inv have "distinct (map ?g (users um))"
    by (simp add: registryInv_def comp_def)
  then have inj: "inj_on ?g (set (users um))"
    by (simp add: distinct_map)
  have "\<not> isNicknameExists lc n (um\<lparr>users := AList.delete s (users um)\<rparr>)"
  proof
    assume "isNicknameExists lc n (um\<lparr>users := AList.delete s (users um)\<rparr>)"
    then obtain p where p: "p \<in> set (AList.delete s (users um))" "?g p = lc (trim n)"
      by (auto simp add: isNicknameExists_iff)
    then have "p \<in> set (users um)" "fst p \<noteq> s"
      by (auto simp add: AList.delete_eq)
    moreover from p dup have "?g p = ?g (s, user)"
      by simp
    ultimately have "p = (s, user)"
      using inj mem by (blast dest: inj_onD)
    with \<open>fst p \<noteq> s\<close> show False
      by simp
  qed
  moreover have "length (AList.delete s (users um)) < length (users um)"
    unfolding AList.delete_eq using mem by (intro length_filter_less [of "(s, user)"]) simp_all
  with inv have "length (AList.delete s (users um)) < MAX_USERS"
    by (simp add: registryInv_def)
  ultimately show ?thesis
    by (simp add: removeUser_eq addUser_valid [OF valid])
qed

lemma afterAll_append: "afterAll lc (xs @ ys) s = afterAll lc ys (afterAll lc xs s)"
  by (induction xs arbitrary: s) simp_all

lemma update_fresh: "k \<notin> fst ` set al \<Longrightarrow> AList.update k v al = al @ [(k, v)]"
  by (induction al) auto

lemma afterAll_joins:
  assumes valid: "\<forall>i<k. validateNickname (JStr (nick i)) = Inr ()"
    and sids: "inj_on sid {..<k}"
    and nicks: "inj_on (\<lambda>i. lc (trim (nick i))) {..<k}"
    and room: "k \<le> MAX_USERS"
  shows "afterAll lc (map (\<lambda>i. AddUser (sid i) (JStr (nick i)) (t i)) [0..<k]) (emptyUsers, ms) =
     (\<lparr>users = map (\<lambda>i. (sid i, \<lparr>id_u = sid i, nickname_u = trim (nick i), joinedAt = t i\<rparr>)) [0..<k]\<rparr>,
      ms)"
  using assms
proof (induction k)
  case 0
  then show ?case by (simp add: emptyUsers_def)
next
  case (Suc k)
  let ?mk = "\<lambda>i. (sid i, \<lparr>id_u = sid i, nickname_u = trim (nick i), joinedAt = t i\<rparr>)"
  let ?um = "\<lparr>users = map ?mk [0..<k]\<rparr>"
  have prev: "afterAll lc (map (\<lambda>i. AddUser (sid i) (JStr (nick i)) (t i)) [0..<k]) (emptyUsers, ms)
      = (?um, ms)"
    using Suc by (simp add: inj_on_def)
  have v: "validateNickname (JStr (nick k)) = Inr ()"
    using Suc.prems by simp
  have ne: "lc (trim (nick k)) \<noteq> lc (trim (nick i))" if "i < k" for i
    using inj_on_eq_iff [OF Suc.prems(3), of k i] that by simp
  have fresh: "\<not> isNicknameExists lc (nick k) ?um"
  proof
    assume "isNicknameExists lc (nick k) ?um"
    then obtain i where "i < k" "lc (trim (nick k)) = lc (trim (nick i))"
      by (auto simp add: isNicknameExists_iff)
    with ne show False
      by blast
  qed
  have "sid k \<noteq> sid i" if "i < k" for i
    using inj_on_eq_iff [OF Suc.prems(2), of k i] that by simp
  then have "sid k \<notin> sid ` {0..<k}"
    by force
  then have "sid k \<notin> fst ` set (map ?mk [0..<k])"
    by (simp add: image_image)
  then have upd: "AList.update (sid k) v' (map ?mk [0..<k]) = map ?mk [0..<k] @ [(sid k, v')]" for v'
    by (rule update_fresh)
  have len: "length (users ?um) < MAX_USERS"
    using Suc.prems(4) by simp
  show ?case
    using prev fresh len
    by (simp add: afterAll_append addUser_valid [OF v] upd)
qed

lemma unat16: "n < 65536 \<Longrightarrow> unat (of_nat n :: 16 word) = n"
  by (simp add: unat_of_nat)

lemma of_nat16_inj: "m < 65536 \<Longrightarrow> n < 65536 \<Longrightarrow> (of_nat m :: 16 word) = of_nat n \<longleftrightarrow> m = n"
  by (metis unat16)

lemma unat_kanji: "i < 100 \<Longrightarrow> unat (kanji i) = 19968 + i"
  unfolding kanji_def by (rule unat16) simp

lemma kanji_inj: "i < 100 \<Longrightarrow> j < 100 \<Longrightarrow> kanji i = kanji j \<longleftrightarrow> i = j"
  by (simp add: word_unat_eq_iff unat_kanji)

lemma kanji_valid:
  assumes "i < 100"
  shows "validateNickname (JStr [kanji i]) = Inr ()"
    and "toLowerCaseASCII (trim [kanji i]) = [kanji i]"
proof -
  note u = unat_kanji [OF assms]
  have ws: "\<not> isWhiteSpace (kanji i)"
    unfolding isWhiteSpace_def word_le_nat_alt word_unat_eq_iff u using assms by simp
  have pat: "isValidPatternChar (kanji i)"
    unfolding isValidPatternChar_def word_le_nat_alt u using assms by simp
  have up: "\<not> (0x41 \<le> kanji i \<and> kanji i \<le> 0x5A)"
    unfolding word_le_nat_alt u by simp
  from ws pat show "validateNickname (JStr [kanji i]) = Inr ()"
    by (simp add: validateNickname_def trim_def NICKNAME_MIN_LENGTH_def NICKNAME_MAX_LENGTH_def)
  from ws up show "toLowerCaseASCII (trim [kanji i]) = [kanji i]"
    by (simp add: trim_def toLowerCaseASCII_def)
qed

lemma fiftyJoined:
  "afterAll toLowerCaseASCII fiftyJoins (emptyUsers, emptyStore) =
     (\<lparr>users = map (\<lambda>i. ([of_nat i],
          \<lparr>id_u = [of_nat i], nickname_u = trim [kanji i], joinedAt = int i\<rparr>)) [0..<50]\<rparr>,
      emptyStore)"
  unfolding fiftyJoins_def
proof (rule afterAll_joins)
  show "\<forall>i<50. validateNickname (JStr [kanji i]) = Inr ()"
    by (simp add: kanji_valid)
  show "inj_on (\<lambda>i. [of_nat i :: 16 word]) {..<50}"
    by (simp add: inj_on_def of_nat16_inj)
  show "inj_on (\<lambda>i. toLowerCaseASCII (trim [kanji i])) {..<50}"
    by (simp add: inj_on_def kanji_valid kanji_inj)
  show "50 \<le> MAX_USERS"
    by (simp add: MAX_USERS_def)
qed

lemmas eval_nickname = validateNickname_def isValidPatternChar_def NICKNAME_MIN_LENGTH_def
  NICKNAME_MAX_LENGTH_def js_def trim_def isWhiteSpace_def toLowerCaseASCII_def

lemma alice_valid:
  "validateNickname (JStr (js ''Alice'')) = Inr ()" "validateNickname (JStr (js ''ALICE'')) = Inr ()"
  by (simp_all add: eval_nickname)

lemma alice_trim: "trim (js ''Alice'') = js ''Alice''" "trim (js ''ALICE'') = js ''ALICE''"
  by (simp_all add: eval_nickname)

lemma alice_joined:
  "afterAll lc [AddUser (js ''s1'') (JStr (js ''Alice'')) 1] (emptyUsers, emptyStore) =
     (\<lparr>users = [(js ''s1'', \<lparr>id_u = js ''s1'', nickname_u = js ''Alice'', joinedAt = 1\<rparr>)]\<rparr>,
      emptyStore)"
  by (simp add: addUser_valid [OF alice_valid(1)] alice_trim isNicknameExists_iff
      emptyUsers_def MAX_USERS_def)

lemma handle_userManager:
  "userManager (snd (handle lc e sm)) =
     (case e of
        JoinRoom s (Some v) now \<Rightarrow> snd (addUser lc s v now (userManager sm))
      | Disconnect s now \<Rightarrow> snd (removeUser s (userManager sm))
      | _ \<Rightarrow> userManager sm)"
proof (cases e)
  case (SendMessage s d uuid now sent)
  have "userManager (snd (handleSendMessage s d uuid now sent sm)) = userManager sm"
    using checkRateLimit_fields(1) [of s now sm]
    by (auto simp add: handleSendMessage_def split: option.splits prod.splits bool.splits sum.splits)
  with SendMessage show ?thesis by simp
qed (auto simp add: handleConnection_def handleJoinRoom_def handleDisconnect_def
       split: option.splits prod.splits sum.splits)

lemma registryInv_handle:
  "registryInv lc (userManager sm) \<Longrightarrow> registryInv lc (userManager (snd (handle lc e sm)))"
  by (simp add: handle_userManager registryInv_addUser registryInv_removeUser
      split: Event.splits option.splits)

lemma registryInv_run:
  "registryInv lc (userManager sm) \<Longrightarrow> registryInv lc (userManager (snd (run lc es sm)))"
proof (induction es arbitrary: sm)
  case Nil
  then show ?case by simp
next
  case (Cons e es)
  from Cons.IH [OF registryInv_handle [OF Cons.prems, of e]] show ?case
    by (simp only: run_Cons_snd)
qed

text \<open>
  Claim C5. In every state of the registry reached by calls of its methods, and so in
  every state the manager reaches by handling events, the nicknames of the
  participants differ after lower-casing. While a participant is
  active, every join whose nickname equals theirs after trimming and lower-casing
  fails and changes nothing; when that nickname is well-formed the error is
  \<open>NICKNAME_TAKEN\<close> (otherwise validation refuses it first), and once the participant
  has left, the same join succeeds.
\<close>

theorem nicknames_unique_among_active:
  "distinct (map (\<lambda>user. lc (nickname_u user))
      (getAllUsers (fst (afterAll lc calls (emptyUsers, ms)))))
   \<and> distinct (map (\<lambda>user. lc (nickname_u user))
        (getAllUsers (userManager (snd (run lc events initialManager)))))
   \<and> (getUser s (fst (afterAll lc calls (emptyUsers, ms))) = Some user \<and>
       lc (trim n) = lc (nickname_u user) \<longrightarrow>
        (addUser lc s' (JStr n) now (fst (afterAll lc calls (emptyUsers, ms)))
           = (Inl NICKNAME_TAKEN, fst (afterAll lc calls (emptyUsers, ms))) \<or>
         addUser lc s' (JStr n) now (fst (afterAll lc calls (emptyUsers, ms)))
           = (Inl INVALID_NICKNAME, fst (afterAll lc calls (emptyUsers, ms))))
        \<and> (validateNickname (JStr n) = Inr () \<longrightarrow>
             addUser lc s' (JStr n) now (fst (afterAll lc calls (emptyUsers, ms)))
               = (Inl NICKNAME_TAKEN, fst (afterAll lc calls (emptyUsers, ms)))
           \<and> fst (addUser lc s' (JStr n) now
                    (snd (removeUser s (fst (afterAll lc calls (emptyUsers, ms))))))
               = Inr \<lparr>id_u = s', nickname_u = trim n, joinedAt = now\<rparr>))"
proof -
  let ?um = "fst (afterAll lc calls (emptyUsers, ms))"
  have inv: "registryInv lc ?um"
    by (rule registryInv_reachable)
  then have "distinct (map (\<lambda>user. lc (nickname_u user)) (getAllUsers ?um))"
    by (simp add: registryInv_def getAllUsers_def)
  moreover have "registryInv lc (userManager initialManager)"
    by (simp add: initialManager_def registryInv_empty)
  then have "distinct (map (\<lambda>user. lc (nickname_u user))
      (getAllUsers (userManager (snd (run lc events initialManager)))))"
    using registryInv_run [of lc initialManager events]
    by (simp add: registryInv_def getAllUsers_def)
  moreover have "addUser lc s' (JStr n) now ?um = (Inl NICKNAME_TAKEN, ?um)
      \<and> fst (addUser lc s' (JStr n) now (snd (removeUser s ?um)))
          = Inr \<lparr>id_u = s', nickname_u = trim n, joinedAt = now\<rparr>"
    if "getUser s ?um = Some user" "validateNickname (JStr n) = Inr ()"
       "lc (trim n) = lc (nickname_u user)"
    using duplicate_taken [OF that, of s' now] free_after_leave [OF inv that, of s' now]
    by simp
  moreover have "addUser lc s' (JStr n) now ?um = (Inl INVALID_NICKNAME, ?um)"
    if "validateNickname (JStr n) \<noteq> Inr ()"
    using that addUser_invalid [of "JStr n" _ lc s' now ?um]
    by (cases "validateNickname (JStr n)") simp_all
  ultimately show ?thesis
    by blast
qed

text \<open>
  An instance: \<open>Alice\<close> has joined; \<open>ALICE\<close> is refused, and accepted after \<open>Alice\<close>
  has left.
\<close>

theorem nicknames_unique_among_active_witness:
  "getUser (js ''s1'')
     (fst (afterAll toLowerCaseASCII [AddUser (js ''s1'') (JStr (js ''Alice'')) 1]
        (emptyUsers, emptyStore))) =
     Some \<lparr>id_u = js ''s1'', nickname_u = js ''Alice'', joinedAt = 1\<rparr>
   \<and> validateNickname (JStr (js ''ALICE'')) = Inr ()
   \<and> toLowerCaseASCII (trim (js ''ALICE'')) = toLowerCaseASCII (js ''Alice'')
   \<and> fst (addUser toLowerCaseASCII (js ''s2'') (JStr (js ''ALICE'')) 2
            (fst (afterAll toLowerCaseASCII [AddUser (js ''s1'') (JStr (js ''Alice'')) 1]
               (emptyUsers, emptyStore))))
       = Inl NICKNAME_TAKEN
   \<and> fst (addUser toLowerCaseASCII (js ''s2'') (JStr (js ''ALICE'')) 3
            (snd (removeUser (js ''s1'')
               (fst (afterAll toLowerCaseASCII [AddUser (js ''s1'') (JStr (js ''Alice'')) 1]
                  (emptyUsers, emptyStore))))))
       = Inr \<lparr>id_u = js ''s2'', nickname_u = js ''ALICE'', joinedAt = 3\<rparr>"
proof -
  let ?um = "fst (afterAll toLowerCaseASCII [AddUser (js ''s1'') (JStr (js ''Alice'')) 1]
               (emptyUsers, emptyStore))"
  let ?alice = "\<lparr>id_u = js ''s1'', nickname_u = js ''Alice'', joinedAt = 1\<rparr>"
  have g: "getUser (js ''s1'') ?um = Some ?alice"
    by (simp only: alice_joined) (simp add: getUser_def)
  have l: "toLowerCaseASCII (trim (js ''ALICE'')) = toLowerCaseASCII (nickname_u ?alice)"
    by (simp add: eval_nickname)
  note v = alice_valid(2)
  from nicknames_unique_among_active
         [where lc = toLowerCaseASCII and calls = "[AddUser (js ''s1'') (JStr (js ''Alice'')) 1]"
            and ms = emptyStore and s = "js ''s1''" and user = ?alice and n = "js ''ALICE''"
            and s' = "js ''s2''" and now = 2]
       g l v
  have "addUser toLowerCaseASCII (js ''s2'') (JStr (js ''ALICE'')) 2 ?um
      = (Inl NICKNAME_TAKEN, ?um)"
    by blast
  then have taken: "fst (addUser toLowerCaseASCII (js ''s2'') (JStr (js ''ALICE'')) 2 ?um)
      = Inl NICKNAME_TAKEN"
    by simp
  from nicknames_unique_among_active
         [where lc = toLowerCaseASCII and calls = "[AddUser (js ''s1'') (JStr (js ''Alice'')) 1]"
            and ms = emptyStore and s = "js ''s1''" and user = ?alice and n = "js ''ALICE''"
            and s' = "js ''s2''" and now = 3]
       g l v
  have "fst (addUser toLowerCaseASCII (js ''s2'') (JStr (js ''ALICE'')) 3
               (snd (removeUser (js ''s1'') ?um)))
      = Inr \<lparr>id_u = js ''s2'', nickname_u = trim (js ''ALICE''), joinedAt = 3\<rparr>"
    by blast
  then have again: "fst (addUser toLowerCaseASCII (js ''s2'') (JStr (js ''ALICE'')) 3
               (snd (removeUser (js ''s1'') ?um)))
      = Inr \<lparr>id_u = js ''s2'', nickname_u = js ''ALICE'', joinedAt = 3\<rparr>"
    by (simp only: alice_trim)
  from l have l': "toLowerCaseASCII (trim (js ''ALICE'')) = toLowerCaseASCII (js ''Alice'')"
    by simp
  from g v l' taken again show ?thesis
    by blast
qed

text \<open>
  Claim C6. A join succeeds only if fewer than 50 participants are active; a join that
  passes the checks of the nickname (well-formed, not taken) succeeds if and only if
  fewer than 50 are active, and fails with \<open>ROOM_FULL\<close> otherwise, changing nothing. No
  reachable registry holds more than 50.
\<close>

theorem join_succeeds_iff_room:
  "((\<exists>user. fst (addUser lc s v now um) = Inr user) \<longrightarrow> getUserCount um < 50)
   \<and> (validateNickname (JStr n) = Inr () \<and> \<not> isNicknameExists lc n um \<longrightarrow>
        ((\<exists>user. fst (addUser lc s (JStr n) now um) = Inr user) \<longleftrightarrow> getUserCount um < 50)
        \<and> (50 \<le> getUserCount um \<longrightarrow> addUser lc s (JStr n) now um = (Inl ROOM_FULL, um)))
   \<and> getUserCount (fst (afterAll lc calls (emptyUsers, ms))) \<le> 50"
proof -
  have "getUserCount um < 50" if "fst (addUser lc s v now um) = Inr user" for user
    using that by (cases rule: addUser_cases [of lc s v now um])
      (simp_all add: getUserCount_def MAX_USERS_def)
  moreover have "getUserCount (fst (afterAll lc calls (emptyUsers, ms))) \<le> 50"
    using registryInv_reachable [of lc calls ms]
    by (simp add: registryInv_def getUserCount_def MAX_USERS_def)
  ultimately show ?thesis
    by (auto simp add: addUser_valid getUserCount_def MAX_USERS_def)
qed

text \<open>
  An instance: after fifty joins the registry holds 50 participants, and the join of a
  fifty-first with a fresh, well-formed nickname fails with \<open>ROOM_FULL\<close>; the same join
  on the empty registry succeeds.
\<close>

theorem join_succeeds_iff_room_witness:
  "getUserCount (fst (afterAll toLowerCaseASCII fiftyJoins (emptyUsers, emptyStore))) = 50
   \<and> validateNickname (JStr [kanji 50]) = Inr ()
   \<and> \<not> isNicknameExists toLowerCaseASCII [kanji 50]
         (fst (afterAll toLowerCaseASCII fiftyJoins (emptyUsers, emptyStore)))
   \<and> addUser toLowerCaseASCII [50] (JStr [kanji 50]) 50
         (fst (afterAll toLowerCaseASCII fiftyJoins (emptyUsers, emptyStore))) =
       (Inl ROOM_FULL, fst (afterAll toLowerCaseASCII fiftyJoins (emptyUsers, emptyStore)))
   \<and> (\<exists>user. fst (addUser toLowerCaseASCII [50] (JStr [kanji 50]) 50 emptyUsers) = Inr user)"
proof -
  let ?um = "fst (afterAll toLowerCaseASCII fiftyJoins (emptyUsers, emptyStore))"
  have c: "getUserCount ?um = 50"
    by (simp add: fiftyJoined getUserCount_def)
  have v: "validateNickname (JStr [kanji 50]) = Inr ()"
    by (rule kanji_valid) simp
  have ne: "toLowerCaseASCII (trim [kanji 50]) \<noteq> toLowerCaseASCII (trim [kanji i])"
    if "i < 50" for i
    using that by (simp add: kanji_valid kanji_inj)
  have f: "\<not> isNicknameExists toLowerCaseASCII [kanji 50] ?um"
  proof
    assume "isNicknameExists toLowerCaseASCII [kanji 50] ?um"
    then obtain i where "i < 50"
        "toLowerCaseASCII (trim [kanji 50]) = toLowerCaseASCII (trim [kanji i])"
      by (auto simp add: isNicknameExists_iff fiftyJoined)
    with ne show False
      by blast
  qed
  have e: "\<not> isNicknameExists toLowerCaseASCII [kanji 50] emptyUsers"
       "getUserCount emptyUsers < 50"
    by (simp_all add: isNicknameExists_iff emptyUsers_def getUserCount_def)
  from join_succeeds_iff_room
         [of toLowerCaseASCII "[50]" "JStr [kanji 50]" 50 ?um "[kanji 50]" "[]" emptyStore]
       c v f
  have full: "addUser toLowerCaseASCII [50] (JStr [kanji 50]) 50 ?um = (Inl ROOM_FULL, ?um)"
    by simp
  from join_succeeds_iff_room
         [of toLowerCaseASCII "[50]" "JStr [kanji 50]" 50 emptyUsers "[kanji 50]" "[]" emptyStore]
       v e
  have "\<exists>user. fst (addUser toLowerCaseASCII [50] (JStr [kanji 50]) 50 emptyUsers) = Inr user"
    by blast
  with c v f full show ?thesis
    by blast
qed

section \<open>The order of the participant list\<close>

lemma labelled_keys: "fst ` set (labelled al) = fst ` set al"
  by (force simp add: labelled_def)

























section \<open>Leaving and disconnecting\<close>

lemma completedJoin_append: "completedJoin s (xs @ ys) \<longleftrightarrow> completedJoin s xs \<or> completedJoin s ys"
  by (auto simp add: completedJoin_def list_ex_iff)

lemma getUser_update: "getUser s (um\<lparr>users := AList.update s' u (users um)\<rparr>) =
    (if s = s' then Some u else getUser s um)"
  by (simp add: getUser_def update_conv')

lemma getUser_delete: "getUser s (um\<lparr>users := AList.delete s' (users um)\<rparr>) =
    (if s = s' then None else getUser s um)"
  by (simp add: getUser_def delete_conv')

lemma checkRateLimit_userManager: "userManager (snd (checkRateLimit s now sm)) = userManager sm"
  by (simp add: checkRateLimit_eq)

lemma handle_joined:
  assumes "handle lc e sm = (out, sm1)" and "getUser s (userManager sm1) \<noteq> None"
  shows "getUser s (userManager sm) \<noteq> None \<or> completedJoin s out"
proof (cases e)
  case (Connection s')
  with assms show ?thesis by (auto simp add: handleConnection_def)
next
  case (JoinRoom s' d now)
  show ?thesis
  proof (cases d)
    case None
    with assms JoinRoom show ?thesis by (auto simp add: handleJoinRoom_def)
  next
    case (Some v)
    show ?thesis
    proof (cases rule: addUser_cases [of lc s' v now "userManager sm"])
      case (fail e)
      with assms JoinRoom Some show ?thesis by (auto simp add: handleJoinRoom_def)
    next
      case (ok n)
      with assms JoinRoom Some show ?thesis
        by (auto simp add: handleJoinRoom_def getUser_update completedJoin_def split: if_splits)
    qed
  qed
next
  case (SendMessage s' d uuid now sent)
  have "userManager (snd (handleSendMessage s' d uuid now sent sm)) = userManager sm"
    using checkRateLimit_userManager [of s' now sm]
    by (auto simp add: handleSendMessage_def split: option.splits prod.splits bool.splits sum.splits)
  with assms SendMessage show ?thesis by auto
next
  case (Disconnect s' now)
  with assms show ?thesis
    by (auto simp add: handleDisconnect_def removeUser_eq getUser_delete getUser_def [symmetric]
        split: option.splits if_splits)
qed

lemma run_joined:
  "getUser s (userManager (snd (run lc es sm))) \<noteq> None \<Longrightarrow>
   getUser s (userManager sm) \<noteq> None \<or> completedJoin s (fst (run lc es sm))"
proof (induction es arbitrary: sm)
  case Nil
  then show ?case by simp
next
  case (Cons e es)
  obtain out sm1 where h: "handle lc e sm = (out, sm1)"
    by (cases "handle lc e sm")
  obtain outs sm2 where r: "run lc es sm1 = (outs, sm2)"
    by (cases "run lc es sm1")
  from Cons.prems h r have "getUser s (userManager (snd (run lc es sm1))) \<noteq> None"
    by simp
  from Cons.IH [OF this] r have "getUser s (userManager sm1) \<noteq> None \<or> completedJoin s outs"
    by simp
  with handle_joined [OF h, of s] h r show ?case
    by (auto simp add: completedJoin_append)
qed

lemma handleDisconnect_absent:
  assumes "getUser s (userManager sm) = None"
  shows "handleDisconnect s now sm = ([], sm\<lparr>rateLimitMap := (rateLimitMap sm)(s := None)\<rparr>)"
proof -
  from assms have "s \<notin> fst ` set (users (userManager sm))"
    by (simp add: getUser_def map_of_eq_None_iff)
  with assms show ?thesis
    by (simp add: handleDisconnect_def removeUser_eq getUser_def)
qed

lemma alice_lower_valid: "validateNickname (JStr (js ''alice'')) = Inr ()"
  by (simp add: eval_nickname)

lemma late_run:
  "run toLowerCaseASCII lateDisconnect initialManager =
     ([SocketEmit (js ''s1'') (JoinSuccess (js ''Alice'') [js ''Alice''] []),
       BroadcastEmit (js ''s1'') (UserJoined (js ''Alice'') 1),
       IoEmit (UpdateUsers [js ''Alice'']),
       SocketEmit (js ''s2'') (ErrorEvent (Code NICKNAME_TAKEN)),
       SocketEmit (js ''s2'') (ErrorEvent (Code CONNECTION_ERROR))],
      \<lparr>userManager =
         \<lparr>users = [(js ''s1'', \<lparr>id_u = js ''s1'', nickname_u = js ''Alice'', joinedAt = 1\<rparr>)]\<rparr>,
       messageStore = emptyStore,
       rateLimitMap = [js ''s1'' \<mapsto> [], js ''s2'' \<mapsto> []]\<rparr>)"
proof -
  have ne: "js ''s2'' \<noteq> js ''s1''"
    by (simp add: js_def)
  have taken: "isNicknameExists toLowerCaseASCII (js ''alice'')
      \<lparr>users = [(js ''s1'', \<lparr>id_u = js ''s1'', nickname_u = js ''Alice'', joinedAt = 1\<rparr>)]\<rparr>"
    by (simp add: isNicknameExists_def eval_nickname)
  have free: "\<not> isNicknameExists toLowerCaseASCII (js ''Alice'') \<lparr>users = []\<rparr>"
    by (simp add: isNicknameExists_def)
  show ?thesis
    unfolding lateDisconnect_def
    by (simp add: initialManager_def emptyUsers_def handleConnection_def handleJoinRoom_def
        handleSendMessage_def addUser_valid alice_valid alice_lower_valid alice_trim taken free
        MAX_USERS_def getAllNicknames_def getRecentMessages_def slice_def emptyStore_def
        getUser_def ne)
qed

text \<open>
  Claim C8. \<open>removeUser\<close> returns the participant of the connection and removes it,
  leaving the others; for a connection that is absent it returns none and changes
  nothing, so a second leave returns none. It has no error result. When the manager
  has never sent a connection \<open>join-success\<close>, its disconnect emits nothing and leaves
  the registry as it is.
\<close>

theorem leave_idempotent_disconnect_silent:
  "(getUser s um = Some user \<longrightarrow>
      fst (removeUser s um) = Some user \<and> getUser s (snd (removeUser s um)) = None
      \<and> (s' \<noteq> s \<longrightarrow> getUser s' (snd (removeUser s um)) = getUser s' um))
   \<and> (getUser s um = None \<longrightarrow> removeUser s um = (None, um))
   \<and> removeUser s (snd (removeUser s um)) = (None, snd (removeUser s um))
   \<and> (\<not> completedJoin s (fst (run lc events initialManager)) \<longrightarrow>
        fst (handle lc (Disconnect s now) (snd (run lc events initialManager))) = []
        \<and> userManager (snd (handle lc (Disconnect s now) (snd (run lc events initialManager))))
            = userManager (snd (run lc events initialManager)))"
proof -
  have absent: "removeUser s um = (None, um)" if "getUser s um = None" for um
  proof -
    from that have "s \<notin> fst ` set (users um)"
      by (simp add: getUser_def map_of_eq_None_iff)
    with that show ?thesis
      by (simp add: removeUser_eq getUser_def)
  qed
  have gone: "getUser s (snd (removeUser s um)) = None"
    by (simp add: removeUser_eq getUser_delete)
  have init: "getUser s (userManager initialManager) = None"
    by (simp add: initialManager_def emptyUsers_def getUser_def)
  have "getUser s (userManager (snd (run lc events initialManager))) = None"
    if "\<not> completedJoin s (fst (run lc events initialManager))"
    using run_joined [of s lc events initialManager] that init
    by blast
  then show ?thesis
    using absent [OF gone] absent [of um]
    by (simp add: gone handleDisconnect_absent) (simp add: removeUser_eq getUser_delete getUser_def)
qed

text \<open>
  An instance: with Alice active on \<open>s1\<close>, leaving \<open>s1\<close> returns Alice; connection \<open>s2\<close>,
  whose join was refused, is absent, its leave returns none and its disconnect emits
  nothing.
\<close>

theorem leave_idempotent_disconnect_silent_witness:
  "getUser (js ''s1'') (userManager (snd (run toLowerCaseASCII lateDisconnect initialManager))) =
     Some \<lparr>id_u = js ''s1'', nickname_u = js ''Alice'', joinedAt = 1\<rparr>
   \<and> fst (removeUser (js ''s1'')
         (userManager (snd (run toLowerCaseASCII lateDisconnect initialManager)))) =
     Some \<lparr>id_u = js ''s1'', nickname_u = js ''Alice'', joinedAt = 1\<rparr>
   \<and> getUser (js ''s2'') (userManager (snd (run toLowerCaseASCII lateDisconnect initialManager))) = None
   \<and> removeUser (js ''s2'')
         (userManager (snd (run toLowerCaseASCII lateDisconnect initialManager))) =
     (None, userManager (snd (run toLowerCaseASCII lateDisconnect initialManager)))
   \<and> \<not> completedJoin (js ''s2'') (fst (run toLowerCaseASCII lateDisconnect initialManager))
   \<and> fst (handle toLowerCaseASCII (Disconnect (js ''s2'') 4)
         (snd (run toLowerCaseASCII lateDisconnect initialManager))) = []"
proof -
  let ?sm = "snd (run toLowerCaseASCII lateDisconnect initialManager)"
  let ?alice = "\<lparr>id_u = js ''s1'', nickname_u = js ''Alice'', joinedAt = 1\<rparr>"
  have ne: "js ''s2'' \<noteq> js ''s1''"
    by (simp add: js_def)
  have g1: "getUser (js ''s1'') (userManager ?sm) = Some ?alice"
    by (simp add: late_run getUser_def)
  have g2: "getUser (js ''s2'') (userManager ?sm) = None"
    by (simp add: late_run getUser_def ne)
  have nj: "\<not> completedJoin (js ''s2'') (fst (run toLowerCaseASCII lateDisconnect initialManager))"
    by (simp add: late_run completedJoin_def ne [symmetric])
  note t1 = leave_idempotent_disconnect_silent
              [of "js ''s1''" "userManager ?sm" ?alice "js ''s2''" toLowerCaseASCII lateDisconnect 4]
  note t2 = leave_idempotent_disconnect_silent
              [of "js ''s2''" "userManager ?sm" ?alice "js ''s1''" toLowerCaseASCII lateDisconnect 4]
  from t1 g1 have r1: "fst (removeUser (js ''s1'') (userManager ?sm)) = Some ?alice"
    by blast
  from t2 g2 have r2: "removeUser (js ''s2'') (userManager ?sm) = (None, userManager ?sm)"
    by blast
  from t2 nj have d: "fst (handle toLowerCaseASCII (Disconnect (js ''s2'') 4) ?sm) = []"
    by blast
  from g1 r1 g2 r2 nj d show ?thesis
    by blast
qed

end
